theory Spec2Isabelle
  imports Complex_Main
begin

section \<open>Data model\<close>

text \<open>
  The image pipeline works on browser \<open>ImageData\<close> values: a width, a height and a flat
  \<open>Uint8ClampedArray\<close> holding four bytes (R, G, B, A) per pixel in row-major order. Every
  loop of the source walks that array in steps of four, so the array is kept here as a
  list of pixels: \<open>data[4p]\<close>, \<open>data[4p+1]\<close>, \<open>data[4p+2]\<close>, \<open>data[4p+3]\<close> of the source
  are the four components of \<open>data img ! p\<close>, and the source's test \<open>idx < data.length\<close>
  on \<open>idx = 4p\<close> is \<open>p < length (data img)\<close>. Channel values are natural numbers; a
  buffer the browser can produce has every channel at most 255 and
  \<open>width * height\<close> pixels (\<open>wellFormed\<close>).

  JavaScript numbers are IEEE doubles. Integer-valued quantities (indices, counts,
  coordinates) are exact there and are \<open>nat\<close> or \<open>int\<close> here; fractional quantities
  (means, ratios, scores) are reals. Where a result depends on how a fractional value
  is rounded, in the luma of a pixel and in the between-class variance of the Otsu loop,
  the rounding is an argument of the definition (\<open>lumaWith\<close>, \<open>otsuLoop\<close>); elsewhere the
  values are taken without rounding.
\<close>

type_synonym pixel = "nat \<times> nat \<times> nat \<times> nat"

record ImageData =
  width :: nat
  height :: nat
  data :: "pixel list"

definition wellFormed :: "ImageData \<Rightarrow> bool" where
  "wellFormed img =
     (0 < width img \<and> 0 < height img \<and> length (data img) = width img * height img \<and>
      list_all (\<lambda>(r, g, b, a). r \<le> 255 \<and> g \<le> 255 \<and> b \<le> 255 \<and> a \<le> 255) (data img))"

text \<open>
  \<open>TextRegion\<close> of the source has the fields \<open>x\<close>, \<open>y\<close>, \<open>width\<close>, \<open>height\<close> and
  \<open>confidence\<close>; the first four carry the prefix \<open>region_\<close> here, since a record field
  is a constant and \<open>x\<close> and \<open>y\<close> must stay usable as variables.
\<close>

record TextRegion =
  region_x :: int
  region_y :: int
  region_width :: int
  region_height :: int
  confidence :: real

record SmartOCROptions =
  useTextDetection :: bool
  multipleRegions :: bool
  enhanceTextRegions :: bool
  useDeepLearning :: bool
  fallbackToOriginal :: bool

record PreprocessingOptions =
  enhanceContrast :: bool
  removeNoise :: bool
  binarize_opt :: bool
  deskew :: bool
  scaleUp :: bool
  sharpen :: bool
  removeBackground :: bool

section \<open>Threshold engine\<close>

subsection \<open>Gray values\<close>

text \<open>
  \<open>Math.round(v)\<close> is \<open>\<lfloor>v + 1/2\<rfloor>\<close>. \<open>ImagePreprocessor.binarize\<close> uses the weighted luma
  \<open>Math.round(0.299 * R + 0.587 * G + 0.114 * B)\<close>; the \<open>SmartTextDetector\<close> uses the plain
  mean \<open>(R + G + B) / 3\<close>, rounded when it indexes a histogram and unrounded when it is
  compared with a threshold.

  JavaScript evaluates the weighted sum in double precision: the three literals are the
  doubles nearest to 0.299, 0.587 and 0.114, and each product and each sum, taken from
  the left, is rounded to a double before \<open>Math.round\<close> sees it. \<open>lumaWith rnd\<close> is the
  expression with the rounding \<open>rnd\<close> applied at each of these places; \<open>luma\<close> is the
  expression without rounding. The two can differ where the exact sum is half-way
  between two integers. The mean \<open>(R + G + B) / 3\<close> has an integer numerator, and its
  rounded quotient falls on the same side of every half-integer as the exact one.
\<close>

definition mathRound :: "real \<Rightarrow> int" where
  "mathRound v = \<lfloor>v + 1 / 2\<rfloor>"

fun lumaWith :: "(real \<Rightarrow> real) \<Rightarrow> pixel \<Rightarrow> int" where
  "lumaWith rnd (r, g, b, a) =
     mathRound (rnd (rnd (rnd (rnd 0.299 * real r) + rnd (rnd 0.587 * real g))
                     + rnd (rnd 0.114 * real b)))"

fun luma :: "pixel \<Rightarrow> int" where
  "luma (r, g, b, a) = mathRound (0.299 * real r + 0.587 * real g + 0.114 * real b)"

fun meanGray :: "pixel \<Rightarrow> real" where
  "meanGray (r, g, b, a) = (real r + real g + real b) / 3"

definition roundedMeanGray :: "pixel \<Rightarrow> int" where
  "roundedMeanGray p = mathRound (meanGray p)"

subsection \<open>Histogram\<close>

text \<open>
  \<open>new Array(256).fill(0)\<close> followed by \<open>histogram[gray]++\<close> for every pixel. An index
  outside \<open>0..255\<close> would add a property to the JavaScript array without touching any of
  the 256 bins the threshold computations read; here it leaves the list unchanged.
\<close>

definition incrementBin :: "nat list \<Rightarrow> int \<Rightarrow> nat list" where
  "incrementBin h g = (if 0 \<le> g \<and> nat g < length h then h[nat g := h ! nat g + 1] else h)"

definition buildHistogram :: "(pixel \<Rightarrow> int) \<Rightarrow> pixel list \<Rightarrow> nat list" where
  "buildHistogram gray ps = fold (\<lambda>p h. incrementBin h (gray p)) ps (replicate 256 0)"

subsection \<open>Otsu threshold\<close>

text \<open>
  \<open>calculateOtsuThreshold(histogram, totalPixels)\<close>; the same text stands in
  \<open>ImagePreprocessor\<close> and in \<open>SmartTextDetector\<close>. The first loop sums \<open>i * histogram[i]\<close>;
  the second keeps \<open>sumB\<close>, \<open>wB\<close>, \<open>varMax\<close> and \<open>threshold\<close>, skips a level while \<open>wB\<close> is
  zero (\<open>continue\<close>) and stops when \<open>wF\<close> is zero (\<open>break\<close>).

  The counters \<open>wB\<close>, \<open>wF\<close>, \<open>sumB\<close> and \<open>sum\<close> hold integers. The only fractional values
  are \<open>mB = sumB / wB\<close>, \<open>mF = (sum - sumB) / wF\<close> and
  \<open>varBetween = wB * wF * (mB - mF) * (mB - mF)\<close>, which JavaScript evaluates in double
  precision, rounding after each operation. \<open>varBetween\<close> is a function of the four
  integers; \<open>otsuLoop\<close> takes that function as its first argument, so that the loop is
  modelled for every way of rounding. With \<open>wB\<close> and \<open>wF\<close> non-zero the value is a finite
  number, and \<open>varBetween > varMax\<close> compares two such numbers exactly.
  \<open>exactVarBetween\<close> is the expression without rounding, and \<open>calculateOtsuThreshold\<close>
  the routine with it.
\<close>

definition otsuSum :: "nat list \<Rightarrow> int" where
  "otsuSum h = (\<Sum>i\<leftarrow>[0..<256]. int i * int (h ! i))"

function otsuLoop ::
  "(int \<Rightarrow> int \<Rightarrow> int \<Rightarrow> int \<Rightarrow> real) \<Rightarrow> nat list \<Rightarrow> int \<Rightarrow> int \<Rightarrow> nat \<Rightarrow> int \<Rightarrow> int \<Rightarrow> real \<Rightarrow> nat
     \<Rightarrow> nat" where
  "otsuLoop varBetweenOf h totalPixels sm i sumB wB varMax threshold =
    (if i < 256 then
       (let wB' = wB + int (h ! i) in
        if wB' = 0 then otsuLoop varBetweenOf h totalPixels sm (i + 1) sumB wB' varMax threshold
        else
          (let wF = totalPixels - wB' in
           if wF = 0 then threshold
           else
             (let sumB' = sumB + int i * int (h ! i);
                  varBetween = varBetweenOf wB' wF sumB' sm
              in if varBetween > varMax
                 then otsuLoop varBetweenOf h totalPixels sm (i + 1) sumB' wB' varBetween i
                 else otsuLoop varBetweenOf h totalPixels sm (i + 1) sumB' wB' varMax threshold)))
     else threshold)"
  by pat_completeness auto
termination
  by (relation "measure (\<lambda>(varBetweenOf, h, totalPixels, sm, i, sumB, wB, varMax, threshold). 256 - i)")
     auto

declare otsuLoop.simps [simp del]

definition calculateOtsuThresholdWith ::
  "(int \<Rightarrow> int \<Rightarrow> int \<Rightarrow> int \<Rightarrow> real) \<Rightarrow> nat list \<Rightarrow> int \<Rightarrow> nat" where
  "calculateOtsuThresholdWith varBetweenOf h totalPixels =
     otsuLoop varBetweenOf h totalPixels (otsuSum h) 0 0 0 0 0"

definition exactVarBetween :: "int \<Rightarrow> int \<Rightarrow> int \<Rightarrow> int \<Rightarrow> real" where
  "exactVarBetween wB wF sumB sm =
     (let mB = real_of_int sumB / real_of_int wB;
          mF = real_of_int (sm - sumB) / real_of_int wF
      in real_of_int wB * real_of_int wF * (mB - mF) * (mB - mF))"

definition calculateOtsuThreshold :: "nat list \<Rightarrow> int \<Rightarrow> nat" where
  "calculateOtsuThreshold h totalPixels = calculateOtsuThresholdWith exactVarBetween h totalPixels"

subsection \<open>Binarization in ImagePreprocessor\<close>

text \<open>
  The write loop of \<open>binarize\<close>, for a given threshold: \<open>binary = gray > threshold ? 255 : 0\<close>
  is stored in R, G and B; alpha is not written. The histogram loop of \<open>binarize\<close> is
  \<open>binarizeHistogramWith rnd\<close> with the rounding of double precision, and
  \<open>binarizeHistogram\<close> without rounding.
\<close>

fun setBinary :: "bool \<Rightarrow> pixel \<Rightarrow> pixel" where
  "setBinary white (r, g, b, a) = (let binary = (if white then 255 else 0) in (binary, binary, binary, a))"

definition applyThreshold :: "int \<Rightarrow> pixel list \<Rightarrow> pixel list" where
  "applyThreshold threshold ps = map (\<lambda>p. setBinary (luma p > threshold) p) ps"

definition binarizeHistogramWith :: "(real \<Rightarrow> real) \<Rightarrow> ImageData \<Rightarrow> nat list" where
  "binarizeHistogramWith rnd img = buildHistogram (lumaWith rnd) (data img)"

definition binarizeHistogram :: "ImageData \<Rightarrow> nat list" where
  "binarizeHistogram img = buildHistogram luma (data img)"

definition binarize :: "ImageData \<Rightarrow> ImageData" where
  "binarize img =
     (let histogram = binarizeHistogram img;
          threshold = calculateOtsuThreshold histogram (int (length (data img)))
      in img\<lparr>data := applyThreshold (int threshold) (data img)\<rparr>)"

subsection \<open>Adaptive threshold and binarization in SmartTextDetector\<close>

text \<open>
  \<open>findHistogramPeaks\<close>: the interior levels that exceed both neighbours and 100, sorted
  by count, largest first (\<open>Array.prototype.sort\<close> is stable), the first two kept.
\<close>

definition findHistogramPeaks :: "nat list \<Rightarrow> nat list" where
  "findHistogramPeaks h =
     take 2 (sort_key (\<lambda>i. - int (h ! i))
       (filter (\<lambda>i. h ! i > h ! (i - 1) \<and> h ! i > h ! (i + 1) \<and> h ! i > 100)
          [1..<length h - 1]))"

definition adaptiveHistogram :: "ImageData \<Rightarrow> nat list" where
  "adaptiveHistogram img = buildHistogram roundedMeanGray (data img)"

definition calculateAdaptiveThreshold :: "ImageData \<Rightarrow> int" where
  "calculateAdaptiveThreshold img =
     (let histogram = adaptiveHistogram img;
          peaks = findHistogramPeaks histogram
      in if length peaks \<ge> 2
         then mathRound ((real (peaks ! 0) + real (peaks ! 1)) / 2)
         else int (calculateOtsuThreshold histogram (int (length (data img)))))"

definition applyThresholdForText :: "int \<Rightarrow> pixel list \<Rightarrow> pixel list" where
  "applyThresholdForText threshold ps = map (\<lambda>p. setBinary (meanGray p > real_of_int threshold) p) ps"

definition binarizeForText :: "ImageData \<Rightarrow> ImageData" where
  "binarizeForText img =
     (let threshold = calculateAdaptiveThreshold img
      in img\<lparr>data := applyThresholdForText threshold (data img)\<rparr>)"

section \<open>Automatic option selection\<close>

text \<open>
  \<open>analyzeImage\<close> walks the pixels once with three accumulators. The pixel at array offset
  \<open>i = 4p\<close> takes part in the contrast statistics when \<open>i > width * 4\<close> and
  \<open>i < data.length - width * 4\<close>, that is \<open>width < p\<close> and \<open>p + width < n\<close> for \<open>n\<close> pixels.
  The three averages divide by \<open>data.length / 4\<close>. On a buffer without pixels they would
  be \<open>NaN\<close>, which compares false with everything; \<open>jsLess\<close> keeps that case.
\<close>

definition analyzeStep :: "ImageData \<Rightarrow> real \<times> real \<times> nat \<Rightarrow> nat \<Rightarrow> real \<times> real \<times> nat" where
  "analyzeStep img acc p =
     (case acc of (totalBrightness, contrastSum, edgePixels) \<Rightarrow>
        (let brightness = meanGray (data img ! p) in
         if p > width img \<and> p + width img < length (data img) then
           (let prevBrightness = meanGray (data img ! (p - width img));
                nextBrightness = meanGray (data img ! (p + width img));
                diff = \<bar>brightness - prevBrightness\<bar> + \<bar>brightness - nextBrightness\<bar>
            in (totalBrightness + brightness, contrastSum + diff,
                if diff > 30 then edgePixels + 1 else edgePixels))
         else (totalBrightness + brightness, contrastSum, edgePixels)))"

definition analyzeStats :: "ImageData \<Rightarrow> real \<times> real \<times> nat" where
  "analyzeStats img = fold (\<lambda>p acc. analyzeStep img acc p) [0..<length (data img)] (0, 0, 0)"

definition jsLess :: "nat \<Rightarrow> real \<Rightarrow> real \<Rightarrow> bool" where
  "jsLess pixelCount a b = (pixelCount \<noteq> 0 \<and> a < b)"

definition analyzeImage :: "ImageData \<Rightarrow> PreprocessingOptions" where
  "analyzeImage img =
     (case analyzeStats img of (totalBrightness, contrastSum, edgePixels) \<Rightarrow>
        (let n = length (data img);
             avgBrightness = totalBrightness / real n;
             avgContrast = contrastSum / real n;
             edgeRatio = real edgePixels / real n
         in \<lparr> enhanceContrast = jsLess n avgContrast 50,
              removeNoise = jsLess n 0.1 edgeRatio,
              binarize_opt = True,
              deskew = False,
              scaleUp = (width img < 800 \<or> height img < 600),
              sharpen = jsLess n avgContrast 30,
              removeBackground = (jsLess n 200 avgBrightness \<or> jsLess n avgBrightness 50) \<rparr>))"

section \<open>Region detection\<close>

subsection \<open>Block tiling\<close>

text \<open>
  All three scanners run \<open>for (let y = 0; y < height - blockSize; y += blockSize)\<close> and the
  same loop over \<open>x\<close>. \<open>blockStarts\<close> lists the values the loop variable takes; the test
  \<open>y < height - blockSize\<close> is \<open>y + blockSize < height\<close> on naturals. The block sizes are
  the constants 20, 30 and 25; the guard \<open>0 < blockSize\<close> only serves termination.

  Inside a block the scoring functions visit \<open>idx = ((y + dy) * width + (x + dx)) * 4\<close>
  for \<open>dy, dx < size\<close> and keep the offsets with \<open>idx < data.length\<close>.
\<close>

function blockStarts :: "nat \<Rightarrow> nat \<Rightarrow> nat \<Rightarrow> nat list" where
  "blockStarts start extent blockSize =
     (if 0 < blockSize \<and> start + blockSize < extent
      then start # blockStarts (start + blockSize) extent blockSize else [])"
  by pat_completeness auto
termination
  by (relation "measure (\<lambda>(start, extent, blockSize). extent - start)") auto

declare blockStarts.simps [simp del]

definition blockOffsets :: "nat \<Rightarrow> nat \<Rightarrow> nat \<Rightarrow> nat \<Rightarrow> nat list" where
  "blockOffsets w x y blockSize =
     concat (map (\<lambda>dy. map (\<lambda>dx. (y + dy) * w + (x + dx)) [0..<blockSize]) [0..<blockSize])"

definition blockPixels :: "pixel list \<Rightarrow> nat \<Rightarrow> nat \<Rightarrow> nat \<Rightarrow> nat \<Rightarrow> pixel list" where
  "blockPixels ps w x y blockSize =
     map (\<lambda>p. ps ! p) (filter (\<lambda>p. p < length ps) (blockOffsets w x y blockSize))"

definition blockRegion :: "nat \<Rightarrow> nat \<Rightarrow> nat \<Rightarrow> real \<Rightarrow> TextRegion" where
  "blockRegion x y blockSize score =
     \<lparr> region_x = int x, region_y = int y, region_width = int blockSize,
       region_height = int blockSize, confidence = score \<rparr>"

subsection \<open>Stroke scanner\<close>

text \<open>
  \<open>calculateStrokeScore\<close> counts the pixels of the block with \<open>(R + G + B) / 3 < 128\<close> and
  returns the dark ratio when it lies strictly between 0.1 and 0.4, else 0.
  \<open>detectTextByStroke\<close> keeps a block when that score exceeds 0.4 and returns the blocks
  as they are, without a merge step. (A block without pixels would give the ratio
  \<open>NaN\<close> and the score 0; here the ratio is \<open>0 / 0 = 0\<close> and the score 0 as well.)
\<close>

definition darkRatio :: "ImageData \<Rightarrow> nat \<Rightarrow> nat \<Rightarrow> nat \<Rightarrow> real" where
  "darkRatio img x y blockSize =
     (let block = blockPixels (data img) (width img) x y blockSize;
          strokeLikePixels = length (filter (\<lambda>p. meanGray p < 128) block);
          totalPixels = length block
      in real strokeLikePixels / real totalPixels)"

definition calculateStrokeScore :: "ImageData \<Rightarrow> nat \<Rightarrow> nat \<Rightarrow> nat \<Rightarrow> real" where
  "calculateStrokeScore img x y blockSize =
     (let ratio = darkRatio img x y blockSize
      in if ratio > 0.1 \<and> ratio < 0.4 then ratio else 0)"

definition detectTextByStroke :: "ImageData \<Rightarrow> TextRegion list" where
  "detectTextByStroke img =
     concat (map (\<lambda>y. concat (map (\<lambda>x.
         (let strokeScore = calculateStrokeScore img x y 25
          in if strokeScore > 0.4 then [blockRegion x y 25 strokeScore] else []))
       (blockStarts 0 (width img) 25))) (blockStarts 0 (height img) 25))"

subsection \<open>Edge scanner\<close>

text \<open>
  \<open>sobelEdgeDetection\<close> starts from a zeroed \<open>Uint8ClampedArray\<close> and writes the interior
  pixels (\<open>1 \<le> y < height - 1\<close>, \<open>1 \<le> x < width - 1\<close>). The kernel loops run over
  \<open>ky, kx = -1..1\<close>; here they run over \<open>0..2\<close> and the pixel read is shifted by one. A
  value stored in a \<open>Uint8ClampedArray\<close> is clamped to \<open>0..255\<close> and rounded to the nearest
  integer, ties to even (\<open>toUint8Clamp\<close>). On a buffer of \<open>width * height\<close> pixels the nine
  reads around an interior pixel are all in range.
\<close>

definition sobelX :: "real list" where
  "sobelX = [-1, 0, 1, -2, 0, 2, -1, 0, 1]"

definition sobelY :: "real list" where
  "sobelY = [-1, -2, -1, 0, 0, 0, 1, 2, 1]"

definition gradient :: "pixel list \<Rightarrow> nat \<Rightarrow> real list \<Rightarrow> nat \<Rightarrow> nat \<Rightarrow> real" where
  "gradient ps w coeffs x y =
     (\<Sum>ky\<leftarrow>[0..<3]. \<Sum>kx\<leftarrow>[0..<3].
        meanGray (ps ! ((y + ky - 1) * w + (x + kx - 1))) * coeffs ! (ky * 3 + kx))"

definition toUint8Clamp :: "real \<Rightarrow> nat" where
  "toUint8Clamp v =
     (if v \<le> 0 then 0
      else if v \<ge> 255 then 255
      else (let f = \<lfloor>v\<rfloor> in
            if v - real_of_int f < 1 / 2 then nat f
            else if v - real_of_int f > 1 / 2 then nat (f + 1)
            else if even f then nat f else nat (f + 1)))"

definition edgePixel :: "pixel list \<Rightarrow> nat \<Rightarrow> nat \<Rightarrow> nat \<Rightarrow> pixel" where
  "edgePixel ps w x y =
     (let gx = gradient ps w sobelX x y;
          gy = gradient ps w sobelY x y;
          magnitude = sqrt (gx * gx + gy * gy);
          e = toUint8Clamp (min 255 magnitude)
      in (e, e, e, 255))"

definition sobelEdgeDetection :: "ImageData \<Rightarrow> ImageData" where
  "sobelEdgeDetection img =
     img\<lparr>data :=
       fold (\<lambda>y edges.
              fold (\<lambda>x edges. edges[y * width img + x := edgePixel (data img) (width img) x y])
                [1..<width img - 1] edges)
         [1..<height img - 1] (replicate (length (data img)) (0, 0, 0, 0))\<rparr>"

text \<open>
  \<open>calculateEdgeScore\<close> averages the red channel of the edge image over the block and
  divides by 255; \<open>detectTextByEdges\<close> keeps the blocks scoring above 0.3 and hands them
  to \<open>mergeNearbyRegions\<close> (defined with the region merger below).
\<close>

definition calculateEdgeScore :: "ImageData \<Rightarrow> nat \<Rightarrow> nat \<Rightarrow> nat \<Rightarrow> nat \<Rightarrow> real" where
  "calculateEdgeScore edges x y blockSize w =
     (let block = blockPixels (data edges) w x y blockSize;
          edgeSum = (\<Sum>(r, g, b, a)\<leftarrow>block. r);
          pixelCount = length block
      in if pixelCount > 0 then (real edgeSum / real pixelCount) / 255 else 0)"

definition edgeCandidates :: "ImageData \<Rightarrow> TextRegion list" where
  "edgeCandidates img =
     (let edges = sobelEdgeDetection img in
      concat (map (\<lambda>y. concat (map (\<lambda>x.
         (let edgeScore = calculateEdgeScore edges x y 20 (width img)
          in if edgeScore > 0.3 then [blockRegion x y 20 edgeScore] else []))
       (blockStarts 0 (width img) 20))) (blockStarts 0 (height img) 20)))"

subsection \<open>Color scanner\<close>

text \<open>
  \<open>findDominantColors\<close> counts the quantized colours in a \<open>Map\<close>, which keeps its keys in
  insertion order; the association list \<open>countColor\<close> builds does the same. The key string
  \<open>r,g,b\<close> determines the quantized triple, so the triple is the key here.
\<close>

type_synonym rgb = "int \<times> int \<times> int"

fun pixelColor :: "pixel \<Rightarrow> rgb" where
  "pixelColor (r, g, b, a) = (int r, int g, int b)"

definition calculateColorVariance :: "rgb list \<Rightarrow> real" where
  "calculateColorVariance colors =
     (if colors = [] then 0
      else
        (let n = real (length colors);
             avgR = (\<Sum>(r, g, b)\<leftarrow>colors. real_of_int r) / n;
             avgG = (\<Sum>(r, g, b)\<leftarrow>colors. real_of_int g) / n;
             avgB = (\<Sum>(r, g, b)\<leftarrow>colors. real_of_int b) / n;
             variance = (\<Sum>(r, g, b)\<leftarrow>colors.
                 (real_of_int r - avgR)\<^sup>2 + (real_of_int g - avgG)\<^sup>2 + (real_of_int b - avgB)\<^sup>2) / n
         in sqrt variance))"

fun quantize32 :: "rgb \<Rightarrow> rgb" where
  "quantize32 (r, g, b) =
     (mathRound (real_of_int r / 32) * 32, mathRound (real_of_int g / 32) * 32,
      mathRound (real_of_int b / 32) * 32)"

fun countColor :: "(rgb \<times> nat) list \<Rightarrow> rgb \<Rightarrow> (rgb \<times> nat) list" where
  "countColor [] k = [(k, 1)]"
| "countColor ((k', c) # m) k =
     (if k' = k then (k', c + 1) # m else (k', c) # countColor m k)"

definition findDominantColors :: "rgb list \<Rightarrow> nat \<Rightarrow> (rgb \<times> nat) list" where
  "findDominantColors colors maxColors =
     take maxColors
       (sort_key (\<lambda>(k, c). - int c) (fold (\<lambda>c m. countColor m (quantize32 c)) colors []))"

definition hasHighContrast :: "(rgb \<times> nat) list \<Rightarrow> bool" where
  "hasHighContrast colors =
     (if length colors < 2 then False
      else (case (fst (colors ! 0), fst (colors ! 1)) of
              ((r1, g1, b1), (r2, g2, b2)) \<Rightarrow>
                sqrt (real_of_int ((r1 - r2)\<^sup>2 + (g1 - g2)\<^sup>2 + (b1 - b2)\<^sup>2)) > 100))"

text \<open>
  \<open>analyzeColorBlock\<close>: a block is text-like when its colour variance is below 50, it has
  at most two dominant colours and the first two are more than 100 apart.
  \<open>detectTextByColor\<close> keeps the text-like blocks and hands them to \<open>mergeNearbyRegions\<close>.
\<close>

definition analyzeColorBlock :: "pixel list \<Rightarrow> nat \<Rightarrow> nat \<Rightarrow> nat \<Rightarrow> nat \<Rightarrow> bool \<times> real" where
  "analyzeColorBlock ps x y blockSize w =
     (let colors = map pixelColor (blockPixels ps w x y blockSize);
          colorVariance = calculateColorVariance colors;
          dominantColors = findDominantColors colors 3;
          hasLowVariance = (colorVariance < 50);
          hasFewColors = (length dominantColors \<le> 2);
          highContrast = hasHighContrast dominantColors;
          isTextLike = (hasLowVariance \<and> hasFewColors \<and> highContrast);
          conf = (if hasLowVariance then 0.4 else 0) + (if hasFewColors then 0.3 else 0)
                   + (if highContrast then 0.3 else 0)
      in (isTextLike, conf))"

definition colorCandidates :: "ImageData \<Rightarrow> TextRegion list" where
  "colorCandidates img =
     concat (map (\<lambda>y. concat (map (\<lambda>x.
         (case analyzeColorBlock (data img) x y 30 (width img) of
            (isTextLike, conf) \<Rightarrow> if isTextLike then [blockRegion x y 30 conf] else []))
       (blockStarts 0 (width img) 30))) (blockStarts 0 (height img) 30))"

section \<open>Region merger\<close>

text \<open>
  \<open>mergeNearbyRegions\<close> keeps a set \<open>used\<close> of indices. The outer loop takes the first
  unused region as \<open>currentRegion\<close>; the inner loop walks the later unused regions in
  order, and each one whose top-left corner is closer than 50 to the corner of the
  \<^emph>\<open>current\<close> (already expanded) region is absorbed and marked used. An index once used
  is skipped by both loops, so the model removes an absorbed region from the list of
  regions still to be visited: \<open>absorbNearby\<close> is the inner loop and returns the expanded
  region with the regions it left, \<open>mergeLoop\<close> is the outer loop.
\<close>

definition regionDistance :: "TextRegion \<Rightarrow> TextRegion \<Rightarrow> real" where
  "regionDistance a b =
     sqrt (real_of_int ((region_x a - region_x b)\<^sup>2 + (region_y a - region_y b)\<^sup>2))"

definition expandRegion :: "TextRegion \<Rightarrow> TextRegion \<Rightarrow> TextRegion" where
  "expandRegion cur r =
     (let minX = min (region_x cur) (region_x r);
          minY = min (region_y cur) (region_y r);
          maxX = max (region_x cur + region_width cur) (region_x r + region_width r);
          maxY = max (region_y cur + region_height cur) (region_y r + region_height r)
      in \<lparr> region_x = minX, region_y = minY, region_width = maxX - minX,
           region_height = maxY - minY,
           confidence = max (confidence cur) (confidence r) \<rparr>)"

fun absorbNearby :: "TextRegion \<Rightarrow> TextRegion list \<Rightarrow> TextRegion \<times> TextRegion list" where
  "absorbNearby cur [] = (cur, [])"
| "absorbNearby cur (r # rs) =
     (if regionDistance cur r < 50 then absorbNearby (expandRegion cur r) rs
      else (case absorbNearby cur rs of (c, rest) \<Rightarrow> (c, r # rest)))"

lemma absorbNearby_length: "length (snd (absorbNearby cur rs)) \<le> length rs"
proof (induction rs arbitrary: cur)
  case Nil
  show ?case by simp
next
  case (Cons r rs)
  show ?case
  proof (cases "regionDistance cur r < 50")
    case True
    then show ?thesis using Cons[of "expandRegion cur r"] by simp
  next
    case False
    then show ?thesis using Cons[of cur] by (simp add: case_prod_unfold)
  qed
qed

function mergeLoop :: "TextRegion list \<Rightarrow> TextRegion list" where
  "mergeLoop [] = []"
| "mergeLoop (r # rs) = (case absorbNearby r rs of (c, rest) \<Rightarrow> c # mergeLoop rest)"
  by pat_completeness auto
termination
proof (relation "measure length")
  show "wf (measure length)" by simp
next
  fix r rs x1 x2
  assume "(x1, x2) = absorbNearby r rs"
  then have "x2 = snd (absorbNearby r rs)" by (metis snd_conv)
  then show "(x2, r # rs) \<in> measure length"
    using absorbNearby_length[of r rs] by simp
qed

definition largeEnough :: "TextRegion \<Rightarrow> bool" where
  "largeEnough region = (region_width region > 20 \<and> region_height region > 10)"

definition mergeNearbyRegions :: "TextRegion list \<Rightarrow> TextRegion list" where
  "mergeNearbyRegions regions = filter largeEnough (mergeLoop regions)"

definition mergeOverlappingRegions :: "TextRegion list \<Rightarrow> TextRegion list" where
  "mergeOverlappingRegions regions = mergeNearbyRegions regions"

definition detectTextByEdges :: "ImageData \<Rightarrow> TextRegion list" where
  "detectTextByEdges img = mergeNearbyRegions (edgeCandidates img)"

definition detectTextByColor :: "ImageData \<Rightarrow> TextRegion list" where
  "detectTextByColor img = mergeNearbyRegions (colorCandidates img)"

section \<open>Enhancement of a detected region\<close>

text \<open>
  \<open>enhanceTextRegion\<close> treats the pixels of one detected region: \<open>increaseContrast\<close> with
  factor 2.0, \<open>removeColorNoise\<close>, \<open>sharpenText\<close>, \<open>binarizeForText\<close>. It is the only caller
  of \<open>binarizeForText\<close>, which is the only caller of \<open>calculateAdaptiveThreshold\<close>.

  \<open>increaseContrast\<close> stores \<open>Math.min(255, Math.max(0, (v - 128) * factor + 128))\<close> in R,
  G and B; with factor 2 the value is an integer. \<open>removeColorNoise\<close> stores the luma
  \<open>gray\<close> in R, G and B. \<open>sharpenText\<close> copies the buffer and writes the interior pixels: for each of the
  three colour channels the nine neighbours weighted by the kernel are summed (integers)
  and the sum is clipped to \<open>0..255\<close>; the kernel loops run over \<open>ky, kx = -1..1\<close>, here over
  \<open>0..2\<close> with the pixel read shifted by one. Every store goes into a \<open>Uint8ClampedArray\<close>
  (\<open>toUint8Clamp\<close>). \<open>channel c\<close> reads component \<open>c\<close> of a pixel.
\<close>

definition contrastChannel :: "real \<Rightarrow> nat \<Rightarrow> nat" where
  "contrastChannel factor v = toUint8Clamp (min 255 (max 0 ((real v - 128) * factor + 128)))"

definition increaseContrast :: "ImageData \<Rightarrow> real \<Rightarrow> ImageData" where
  "increaseContrast img factor =
     img\<lparr>data := map (\<lambda>(r, g, b, a).
              (contrastChannel factor r, contrastChannel factor g, contrastChannel factor b, a))
            (data img)\<rparr>"

definition removeColorNoise :: "(real \<Rightarrow> real) \<Rightarrow> ImageData \<Rightarrow> ImageData" where
  "removeColorNoise rnd img =
     img\<lparr>data := map (\<lambda>(r, g, b, a).
              (let gray = lumaWith rnd (r, g, b, a);
                   stored = toUint8Clamp (real_of_int gray)
               in (stored, stored, stored, a)))
            (data img)\<rparr>"

definition sharpenKernel :: "int list" where
  "sharpenKernel = [0, -1, 0, -1, 6, -1, 0, -1, 0]"

fun channel :: "nat \<Rightarrow> pixel \<Rightarrow> nat" where
  "channel c (r, g, b, a) = (if c = 0 then r else if c = 1 then g else if c = 2 then b else a)"

definition kernelSum :: "pixel list \<Rightarrow> nat \<Rightarrow> nat \<Rightarrow> nat \<Rightarrow> nat \<Rightarrow> int" where
  "kernelSum ps w c x y =
     (\<Sum>ky\<leftarrow>[0..<3]. \<Sum>kx\<leftarrow>[0..<3].
        int (channel c (ps ! ((y + ky - 1) * w + (x + kx - 1)))) * sharpenKernel ! (ky * 3 + kx))"

definition sharpChannel :: "pixel list \<Rightarrow> nat \<Rightarrow> nat \<Rightarrow> nat \<Rightarrow> nat \<Rightarrow> nat" where
  "sharpChannel ps w c x y = toUint8Clamp (min 255 (max 0 (real_of_int (kernelSum ps w c x y))))"

definition sharpPixel :: "pixel list \<Rightarrow> nat \<Rightarrow> nat \<Rightarrow> nat \<Rightarrow> pixel" where
  "sharpPixel ps w x y =
     (sharpChannel ps w 0 x y, sharpChannel ps w 1 x y, sharpChannel ps w 2 x y,
      channel 3 (ps ! (y * w + x)))"

definition sharpenText :: "ImageData \<Rightarrow> ImageData" where
  "sharpenText img =
     img\<lparr>data :=
       fold (\<lambda>y newData.
              fold (\<lambda>x newData. newData[y * width img + x := sharpPixel (data img) (width img) x y])
                [1..<width img - 1] newData)
         [1..<height img - 1] (data img)\<rparr>"

text \<open>
  \<open>textBuffer rnd img\<close> is the value of \<open>enhanced\<close> that \<open>enhanceTextRegion\<close> hands to
  \<open>binarizeForText\<close>, and so to \<open>calculateAdaptiveThreshold\<close>.
\<close>

definition textBuffer :: "(real \<Rightarrow> real) \<Rightarrow> ImageData \<Rightarrow> ImageData" where
  "textBuffer rnd img =
     (let enhanced = increaseContrast img 2;
          enhanced = removeColorNoise rnd enhanced;
          enhanced = sharpenText enhanced
      in enhanced)"

definition enhanceTextRegion :: "(real \<Rightarrow> real) \<Rightarrow> ImageData \<Rightarrow> ImageData" where
  "enhanceTextRegion rnd img = binarizeForText (textBuffer rnd img)"

section \<open>Pipeline\<close>

text \<open>
  \<open>detectAndExtractText\<close> receives a file, decodes it and reads the canvas back as
  \<open>ImageData\<close>; the model starts from that buffer. The files it returns are PNG
  encodings made by the browser. They are represented by their origin:
  \<open>RegionFile r\<close> is the result of \<open>extractAndEnhanceRegion(img, r)\<close> (the file
  \<open>text_region_x_y.png\<close>) and \<open>GlobalFile\<close> the result of
  \<open>createGlobalEnhancedImage(img)\<close> (the file \<open>enhanced_global.png\<close>).
\<close>

datatype ProcessedImage = RegionFile TextRegion | GlobalFile

record DetectionResult =
  regions :: "TextRegion list"
  processedImages :: "ProcessedImage list"

definition mergerInput :: "ImageData \<Rightarrow> TextRegion list" where
  "mergerInput img = detectTextByEdges img @ detectTextByColor img @ detectTextByStroke img"

definition detectRegions :: "ImageData \<Rightarrow> SmartOCROptions \<Rightarrow> TextRegion list" where
  "detectRegions img options =
     (if useTextDetection options then mergeOverlappingRegions (mergerInput img) else [])"

definition detectAndExtractText :: "ImageData \<Rightarrow> SmartOCROptions \<Rightarrow> DetectionResult" where
  "detectAndExtractText img options =
     (let textRegions = detectRegions img options;
          regionImages =
            (if length textRegions > 0 \<and> enhanceTextRegions options
             then map RegionFile textRegions else []);
          allImages =
            (if fallbackToOriginal options \<or> length textRegions = 0
             then regionImages @ [GlobalFile] else regionImages)
      in \<lparr> regions = textRegions, processedImages = allImages \<rparr>)"

section \<open>Specification-level notions and sample inputs\<close>

subsection \<open>Otsu objective\<close>

text \<open>
  Cumulative weight and first moment of the levels \<open>0..t\<close>. With \<open>totalPixels = T\<close> the loop
  evaluates \<open>varBetween\<close> at level \<open>j\<close> when the weight there is neither zero (\<open>continue\<close>)
  nor \<open>T\<close> (\<open>break\<close>), and the value it computes is \<open>computedVariance\<close>.
\<close>

definition cumWeight :: "nat list \<Rightarrow> nat \<Rightarrow> int" where
  "cumWeight h t = (\<Sum>j\<le>t. int (h ! j))"

definition cumMoment :: "nat list \<Rightarrow> nat \<Rightarrow> int" where
  "cumMoment h t = (\<Sum>j\<le>t. int j * int (h ! j))"

definition evaluatedAt :: "nat list \<Rightarrow> int \<Rightarrow> nat \<Rightarrow> bool" where
  "evaluatedAt h T j = (cumWeight h j \<noteq> 0 \<and> cumWeight h j \<noteq> T)"

definition computedVariance ::
  "(int \<Rightarrow> int \<Rightarrow> int \<Rightarrow> int \<Rightarrow> real) \<Rightarrow> nat list \<Rightarrow> int \<Rightarrow> nat \<Rightarrow> real" where
  "computedVariance varBetweenOf h T j =
     varBetweenOf (cumWeight h j) (T - cumWeight h j) (cumMoment h j) (cumMoment h 255)"

text \<open>
  \<open>firstComputedMax varBetweenOf h T r\<close>: either no evaluated level has a positive computed
  variance and \<open>r\<close> is 0, or \<open>r\<close> is an evaluated level whose computed variance is
  positive, is not exceeded at any evaluated level, and is not reached at any earlier
  one. \<open>otsuInv\<close> is the invariant of the loop before level \<open>i\<close>.
\<close>

definition firstComputedMax ::
  "(int \<Rightarrow> int \<Rightarrow> int \<Rightarrow> int \<Rightarrow> real) \<Rightarrow> nat list \<Rightarrow> int \<Rightarrow> nat \<Rightarrow> bool" where
  "firstComputedMax varBetweenOf h T r =
     ((r = 0 \<and> (\<forall>j<256. evaluatedAt h T j \<longrightarrow> computedVariance varBetweenOf h T j \<le> 0)) \<or>
      (r < 256 \<and> evaluatedAt h T r \<and> 0 < computedVariance varBetweenOf h T r \<and>
       (\<forall>j<256. evaluatedAt h T j \<longrightarrow>
          computedVariance varBetweenOf h T j \<le> computedVariance varBetweenOf h T r) \<and>
       (\<forall>j<r. evaluatedAt h T j \<longrightarrow>
          computedVariance varBetweenOf h T j < computedVariance varBetweenOf h T r)))"

definition otsuInv ::
  "(int \<Rightarrow> int \<Rightarrow> int \<Rightarrow> int \<Rightarrow> real) \<Rightarrow> nat list \<Rightarrow> int \<Rightarrow> nat \<Rightarrow> real \<Rightarrow> nat \<Rightarrow> bool" where
  "otsuInv varBetweenOf h T i vm th =
     ((\<forall>j<i. evaluatedAt h T j \<longrightarrow> computedVariance varBetweenOf h T j \<le> vm) \<and>
      ((vm = 0 \<and> th = 0) \<or>
       (th < i \<and> evaluatedAt h T th \<and> vm = computedVariance varBetweenOf h T th \<and> 0 < vm)) \<and>
      (\<forall>j<th. evaluatedAt h T j \<longrightarrow> computedVariance varBetweenOf h T j < vm))"

text \<open>A histogram with two occupied levels, and the two-peak histogram of claim C2.\<close>

definition twoLevels :: "nat \<Rightarrow> nat \<Rightarrow> nat \<Rightarrow> nat \<Rightarrow> nat list" where
  "twoLevels a m b n = (replicate 256 0)[a := m, b := n]"

definition twoPeakHistogram :: "nat list" where
  "twoPeakHistogram = (replicate 256 0)[20 := 1000, 220 := 1000]"

subsection \<open>Sample inputs\<close>

text \<open>
  Small buffers and the option set of \<open>getDefaultOptions\<close>, used to instantiate the
  theorems below.
\<close>

definition samplePixels :: "pixel list" where
  "samplePixels = [(10, 20, 30, 40), (200, 210, 220, 77)]"

definition blackWhiteImage :: ImageData where
  "blackWhiteImage = \<lparr> width = 1, height = 2, data = [(0, 0, 0, 255), (255, 255, 255, 255)] \<rparr>"

definition defaultOptions :: SmartOCROptions where
  "defaultOptions = \<lparr> useTextDetection = True, multipleRegions = True, enhanceTextRegions = True,
                       useDeepLearning = False, fallbackToOriginal = True \<rparr>"

text \<open>Three by three pixels, white around a red centre.\<close>

definition dotImage :: ImageData where
  "dotImage = \<lparr> width = 3, height = 3,
       data = [(255, 255, 255, 255), (255, 255, 255, 255), (255, 255, 255, 255),
               (255, 255, 255, 255), (255, 0, 0, 255), (255, 255, 255, 255),
               (255, 255, 255, 255), (255, 255, 255, 255), (255, 255, 255, 255)] \<rparr>"

text \<open>A pixel whose three colour channels hold the same byte.\<close>

definition grayByte :: "pixel \<Rightarrow> bool" where
  "grayByte p = (case p of (r, g, b, a) \<Rightarrow> r = g \<and> g = b \<and> r \<le> 255)"

text \<open>
  What the proofs need of the rounding to double precision: a number of magnitude at
  most 1000 moves by at most \<open>1 / 2 ^ 40\<close>. Rounding to the nearest double moves a number
  below \<open>2 ^ 10\<close> by at most \<open>1 / 2 ^ 44\<close>.
\<close>

definition accurateRounding :: "(real \<Rightarrow> real) \<Rightarrow> bool" where
  "accurateRounding rnd = (\<forall>v. \<bar>v\<bar> \<le> 1000 \<longrightarrow> \<bar>rnd v - v\<bar> \<le> 1 / 2 ^ 40)"

subsection \<open>Regions\<close>

text \<open>
  \<open>cornersApart rs\<close>: no two regions of the list have top-left corners closer than the
  merge threshold 50. \<open>region\<close> writes a \<open>TextRegion\<close> in one line.
\<close>

fun cornersApart :: "TextRegion list \<Rightarrow> bool" where
  "cornersApart [] = True"
| "cornersApart (r # rs) = (list_all (\<lambda>s. \<not> regionDistance r s < 50) rs \<and> cornersApart rs)"

definition region :: "int \<Rightarrow> int \<Rightarrow> int \<Rightarrow> int \<Rightarrow> real \<Rightarrow> TextRegion" where
  "region x y w h c =
     \<lparr> region_x = x, region_y = y, region_width = w, region_height = h, confidence = c \<rparr>"

text \<open>
  Candidate lists as the edge scanner emits them: 20 by 20 blocks at multiples of 20, in
  scan order (rows from the top, columns from the left).
\<close>

definition scanOrderCandidates :: "TextRegion list" where
  "scanOrderCandidates =
     [region 60 0 20 20 0.5, region 0 20 20 20 0.5, region 20 20 20 20 0.5, region 20 60 20 20 0.5]"

definition separatedCandidates :: "TextRegion list" where
  "separatedCandidates = [region 0 0 20 20 0.5, region 20 0 20 20 0.9, region 100 0 30 30 0.4]"

subsection \<open>Pixels by coordinates\<close>

text \<open>The gray value \<open>(R + G + B) / 3\<close> of the pixel in column \<open>x\<close> of row \<open>y\<close>.\<close>

definition grayAt :: "pixel list \<Rightarrow> nat \<Rightarrow> nat \<Rightarrow> nat \<Rightarrow> real" where
  "grayAt ps w x y = meanGray (ps ! (y * w + x))"

subsection \<open>A test image\<close>

text \<open>
  A white image of 41 by 31 pixels with one black pixel in the top-left corner and
  black stripes two pixels wide in the columns from 30 on. The edge scanner has the
  blocks at \<open>x = 0\<close> and \<open>x = 20\<close> (\<open>y = 0\<close>), the colour scanner and the stroke scanner the
  block at the origin.
\<close>

definition memePixel :: "nat \<Rightarrow> pixel" where
  "memePixel p =
     (let x = p mod 41; y = p div 41
      in if (x = 0 \<and> y = 0) \<or> (30 \<le> x \<and> odd (x div 2))
         then (0, 0, 0, 255) else (255, 255, 255, 255))"

definition memeImage :: ImageData where
  "memeImage = \<lparr> width = 41, height = 31, data = map memePixel [0..<1271] \<rparr>"

subsection \<open>An image for the stroke scanner\<close>

text \<open>
  26 by 26 pixels, the four top rows black and the rest white. The stroke scanner has
  one block, at the origin; 100 of its 625 pixels are dark.
\<close>

definition strokePixel :: "nat \<Rightarrow> pixel" where
  "strokePixel p = (if p div 26 < 4 then (0, 0, 0, 255) else (255, 255, 255, 255))"

definition strokeImage :: ImageData where
  "strokeImage = \<lparr> width = 26, height = 26, data = map strokePixel [0..<676] \<rparr>"

subsection \<open>Image statistics\<close>

text \<open>
  The three statistics of claim C7, over the whole image. Brightness is \<open>(R + G + B) / 3\<close>.
  The local contrast of a pixel is the sum of the absolute brightness differences to the
  pixel one row above and the pixel one row below; the pixels that have both, those with
  \<open>width \<le> p\<close> and \<open>p + width < n\<close> among the \<open>n\<close> pixels, contribute to the contrast and edge
  statistics, and an edge pixel is one whose local contrast exceeds 30. All three
  statistics divide by the number of pixels. \<open>statedFlags\<close> are the flags claim C7 derives
  from them.
\<close>

definition brightnessAt :: "ImageData \<Rightarrow> nat \<Rightarrow> real" where
  "brightnessAt img p = meanGray (data img ! p)"

definition hasVerticalNeighbours :: "ImageData \<Rightarrow> nat \<Rightarrow> bool" where
  "hasVerticalNeighbours img p = (width img \<le> p \<and> p + width img < length (data img))"

definition verticalDiff :: "ImageData \<Rightarrow> nat \<Rightarrow> real" where
  "verticalDiff img p =
     \<bar>brightnessAt img p - brightnessAt img (p - width img)\<bar>
     + \<bar>brightnessAt img p - brightnessAt img (p + width img)\<bar>"

definition averageBrightness :: "ImageData \<Rightarrow> real" where
  "averageBrightness img =
     (\<Sum>p\<leftarrow>[0..<length (data img)]. brightnessAt img p) / real (length (data img))"

definition averageLocalContrast :: "ImageData \<Rightarrow> real" where
  "averageLocalContrast img =
     (\<Sum>p\<leftarrow>filter (hasVerticalNeighbours img) [0..<length (data img)]. verticalDiff img p)
       / real (length (data img))"

definition edgePixelRatio :: "ImageData \<Rightarrow> real" where
  "edgePixelRatio img =
     real (length (filter (\<lambda>p. hasVerticalNeighbours img p \<and> verticalDiff img p > 30)
                     [0..<length (data img)]))
       / real (length (data img))"

definition statedFlags :: "ImageData \<Rightarrow> PreprocessingOptions" where
  "statedFlags img =
     \<lparr> enhanceContrast = (averageLocalContrast img < 50),
       removeNoise = (edgePixelRatio img > 0.1),
       binarize_opt = True,
       deskew = False,
       scaleUp = (width img < 800 \<or> height img < 600),
       sharpen = (averageLocalContrast img < 30),
       removeBackground = (averageBrightness img > 200 \<or> averageBrightness img < 50) \<rparr>"

text \<open>One column, three rows: a white pixel between two black ones.\<close>

definition columnImage :: ImageData where
  "columnImage = \<lparr> width = 1, height = 3,
       data = [(0, 0, 0, 255), (255, 255, 255, 255), (0, 0, 0, 255)] \<rparr>"

section \<open>The Otsu threshold is the first maximum of the computed variance\<close>

lemma otsuSum_cumMoment: "otsuSum h = cumMoment h 255"
proof -
  have "{..255::nat} = set [0..<256]" by auto
  then show ?thesis
    unfolding otsuSum_def cumMoment_def
    by (simp only: sum.distinct_set_conv_list[OF distinct_upt] )
qed

lemma cumWeight_Suc: "cumWeight h i = (\<Sum>j<i. int (h ! j)) + int (h ! i)"
  unfolding cumWeight_def by (simp add: lessThan_Suc_atMost[symmetric])

lemma cumMoment_Suc: "cumMoment h i = (\<Sum>j<i. int j * int (h ! j)) + int i * int (h ! i)"
  unfolding cumMoment_def by (simp add: lessThan_Suc_atMost[symmetric])

lemma cumWeight_mono: "s \<le> t \<Longrightarrow> cumWeight h s \<le> cumWeight h t"
  unfolding cumWeight_def by (rule sum_mono2) auto

lemma cumWeight_nonneg: "0 \<le> cumWeight h t"
  unfolding cumWeight_def by (rule sum_nonneg) simp

lemma otsuInv_stop:
  assumes inv: "otsuInv vf h T i vm th" and i: "i \<le> 256"
    and all: "\<And>j. j < 256 \<Longrightarrow> evaluatedAt h T j \<Longrightarrow> computedVariance vf h T j \<le> vm"
  shows "firstComputedMax vf h T th"
proof (cases "vm = 0 \<and> th = 0")
  case True
  then show ?thesis using all by (simp add: firstComputedMax_def)
next
  case False
  then have "th < i" "evaluatedAt h T th" "vm = computedVariance vf h T th" "0 < vm"
    "\<forall>j<th. evaluatedAt h T j \<longrightarrow> computedVariance vf h T j < vm"
    using inv by (auto simp: otsuInv_def)
  then show ?thesis using all i by (simp add: firstComputedMax_def)
qed

lemma otsuInv_nonneg: "otsuInv vf h T i vm th \<Longrightarrow> 0 \<le> vm"
  by (auto simp: otsuInv_def)

lemma otsuInv_skip:
  assumes "otsuInv vf h T i vm th" "\<not> evaluatedAt h T i"
  shows "otsuInv vf h T (i + 1) vm th"
  using assms by (auto simp: otsuInv_def less_Suc_eq)

lemma otsuInv_keep:
  assumes "otsuInv vf h T i vm th" "computedVariance vf h T i \<le> vm"
  shows "otsuInv vf h T (i + 1) vm th"
  using assms by (auto simp: otsuInv_def less_Suc_eq)

lemma otsuInv_update:
  assumes "otsuInv vf h T i vm th" "vm < computedVariance vf h T i" "evaluatedAt h T i"
  shows "otsuInv vf h T (i + 1) (computedVariance vf h T i) i"
proof -
  have vm0: "0 \<le> vm" using assms(1) by (rule otsuInv_nonneg)
  have a: "\<forall>j<i. evaluatedAt h T j \<longrightarrow> computedVariance vf h T j \<le> vm"
    using assms(1) by (simp add: otsuInv_def)
  have "\<forall>j<i + 1. evaluatedAt h T j \<longrightarrow> computedVariance vf h T j \<le> computedVariance vf h T i"
    using a assms(2) by (auto simp: less_Suc_eq)
  moreover have "\<forall>j<i. evaluatedAt h T j \<longrightarrow> computedVariance vf h T j < computedVariance vf h T i"
    using a assms(2) by fastforce
  moreover have "0 < computedVariance vf h T i" using vm0 assms(2) by linarith
  ultimately show ?thesis using assms(3) by (simp add: otsuInv_def)
qed

lemma otsuLoop_done: "\<not> i < 256 \<Longrightarrow> otsuLoop vf h T sm i sumB wB vm th = th"
  by (subst otsuLoop.simps) simp

lemma otsuLoop_continue:
  "i < 256 \<Longrightarrow> wB + int (h ! i) = 0 \<Longrightarrow>
   otsuLoop vf h T sm i sumB wB vm th = otsuLoop vf h T sm (i + 1) sumB (wB + int (h ! i)) vm th"
  by (subst otsuLoop.simps) (simp add: Let_def)

lemma otsuLoop_break:
  "i < 256 \<Longrightarrow> wB + int (h ! i) \<noteq> 0 \<Longrightarrow> T - (wB + int (h ! i)) = 0 \<Longrightarrow>
   otsuLoop vf h T sm i sumB wB vm th = th"
  by (subst otsuLoop.simps) (simp add: Let_def)

lemma otsuLoop_step:
  assumes "i < 256" "wB + int (h ! i) \<noteq> 0" "T - (wB + int (h ! i)) \<noteq> 0"
  shows "otsuLoop vf h T sm i sumB wB vm th =
     (if vf (wB + int (h ! i)) (T - (wB + int (h ! i))) (sumB + int i * int (h ! i)) sm > vm
      then otsuLoop vf h T sm (i + 1) (sumB + int i * int (h ! i)) (wB + int (h ! i))
             (vf (wB + int (h ! i)) (T - (wB + int (h ! i))) (sumB + int i * int (h ! i)) sm) i
      else otsuLoop vf h T sm (i + 1) (sumB + int i * int (h ! i)) (wB + int (h ! i)) vm th)"
  apply (subst otsuLoop.simps)
  apply (simp only: assms Let_def if_True if_False)
  done

lemma sum_int_zero_last:
  assumes "(\<Sum>j<i. int (h ! j)) + int (h ! i) = 0"
  shows "h ! i = 0"
proof -
  have "0 \<le> (\<Sum>j<i. int (h ! j))" by (rule sum_nonneg) simp
  then show ?thesis using assms by linarith
qed

lemma otsuLoop_firstComputedMax:
  assumes "n = 256 - i" "i \<le> 256"
    and "wB = (\<Sum>j<i. int (h ! j))"
    and "sumB = (\<Sum>j<i. int j * int (h ! j))"
    and "otsuInv vf h (cumWeight h 255) i vm th"
  shows "firstComputedMax vf h (cumWeight h 255)
           (otsuLoop vf h (cumWeight h 255) (cumMoment h 255) i sumB wB vm th)"
  using assms
proof (induction n arbitrary: i sumB wB vm th)
  case 0
  then have i: "i = 256" by simp
  then have all: "\<And>j. j < 256 \<Longrightarrow> evaluatedAt h (cumWeight h 255) j \<Longrightarrow>
      computedVariance vf h (cumWeight h 255) j \<le> vm"
    using "0.prems"(5) by (simp add: otsuInv_def)
  show ?case
    using otsuInv_stop[OF "0.prems"(5) "0.prems"(2) all] i by (simp add: otsuLoop_done)
next
  case (Suc n)
  note inv = \<open>otsuInv vf h (cumWeight h 255) i vm th\<close>
  have lt: "i < 256" using Suc.prems(1) by simp
  have n: "n = 256 - (i + 1)" using Suc.prems(1) by simp
  have le: "i + 1 \<le> 256" using lt by simp
  have wB': "wB + int (h ! i) = cumWeight h i" using Suc.prems(3) by (simp add: cumWeight_Suc)
  have sumB': "sumB + int i * int (h ! i) = cumMoment h i" using Suc.prems(4) by (simp add: cumMoment_Suc)
  have pre2: "wB + int (h ! i) = (\<Sum>j<i + 1. int (h ! j))" using Suc.prems(3) by simp
  have pre3: "sumB + int i * int (h ! i) = (\<Sum>j<i + 1. int j * int (h ! j))" using Suc.prems(4) by simp
  show ?case
  proof (cases "wB + int (h ! i) = 0")
    case z: True
    have hi: "h ! i = 0" using z unfolding Suc.prems(3) by (rule sum_int_zero_last)
    have "cumWeight h i = 0" using z wB' by linarith
    then have ne: "\<not> evaluatedAt h (cumWeight h 255) i" by (simp add: evaluatedAt_def)
    have pre3': "sumB = (\<Sum>j<i + 1. int j * int (h ! j))" using Suc.prems(4) hi by simp
    have inv': "otsuInv vf h (cumWeight h 255) (i + 1) vm th" using inv ne by (rule otsuInv_skip)
    show ?thesis
      using Suc.IH[OF n le pre2 pre3' inv'] by (simp only: otsuLoop_continue[OF lt z])
  next
    case nz: False
    show ?thesis
    proof (cases "cumWeight h 255 - (wB + int (h ! i)) = 0")
      case brk: True
      have all: "computedVariance vf h (cumWeight h 255) j \<le> vm"
        if "j < 256" "evaluatedAt h (cumWeight h 255) j" for j
      proof (cases "j < i")
        case True
        then show ?thesis using inv that(2) by (simp add: otsuInv_def)
      next
        case False
        then have "cumWeight h i \<le> cumWeight h j" by (intro cumWeight_mono) simp
        moreover have "cumWeight h j \<le> cumWeight h 255" using that(1) by (intro cumWeight_mono) simp
        moreover have "cumWeight h i = cumWeight h 255" using brk wB' by linarith
        ultimately have "cumWeight h j = cumWeight h 255" by linarith
        then have "\<not> evaluatedAt h (cumWeight h 255) j" by (simp add: evaluatedAt_def)
        then show ?thesis using that(2) by simp
      qed
      show ?thesis
        using otsuInv_stop[OF inv Suc.prems(2) all] by (simp only: otsuLoop_break[OF lt nz brk])
    next
      case nbrk: False
      have ev: "evaluatedAt h (cumWeight h 255) i"
        using nz nbrk wB' by (simp add: evaluatedAt_def)
      have vb: "vf (wB + int (h ! i)) (cumWeight h 255 - (wB + int (h ! i)))
                  (sumB + int i * int (h ! i)) (cumMoment h 255)
                = computedVariance vf h (cumWeight h 255) i"
        by (simp only: wB' sumB' computedVariance_def)
      show ?thesis
      proof (cases "computedVariance vf h (cumWeight h 255) i > vm")
        case upd: True
        have inv': "otsuInv vf h (cumWeight h 255) (i + 1) (computedVariance vf h (cumWeight h 255) i) i"
          using otsuInv_update[OF inv upd ev] .
        show ?thesis
          using Suc.IH[OF n le pre2 pre3 inv'] upd
          by (simp only: otsuLoop_step[OF lt nz nbrk] vb if_True)
      next
        case keep: False
        have inv': "otsuInv vf h (cumWeight h 255) (i + 1) vm th"
          using inv keep by (intro otsuInv_keep) simp_all
        show ?thesis
          using Suc.IH[OF n le pre2 pre3 inv'] keep
          by (simp only: otsuLoop_step[OF lt nz nbrk] vb if_False)
      qed
    qed
  qed
qed

lemma otsuInv_init: "otsuInv vf h T 0 0 0"
  by (simp add: otsuInv_def)

lemma calculateOtsuThresholdWith_firstComputedMax:
  "firstComputedMax vf h (cumWeight h 255) (calculateOtsuThresholdWith vf h (cumWeight h 255))"
  unfolding calculateOtsuThresholdWith_def otsuSum_cumMoment
  by (rule otsuLoop_firstComputedMax[where n = 256]) (simp_all add: otsuInv_init)

lemma twoLevels_nth:
  assumes "a < b" "b < 256" "j < 256"
  shows "twoLevels a m b n ! j = (if j = a then m else 0) + (if j = b then n else 0)"
  using assms by (auto simp: twoLevels_def nth_list_update)

lemma twoLevels_cumWeight:
  assumes "a < b" "b < 256" "t < 256"
  shows "cumWeight (twoLevels a m b n) t = (if a \<le> t then int m else 0) + (if b \<le> t then int n else 0)"
proof -
  have "cumWeight (twoLevels a m b n) t
      = (\<Sum>j\<le>t. (if j = a then int m else 0) + (if j = b then int n else 0))"
    unfolding cumWeight_def using assms by (intro sum.cong) (auto simp: twoLevels_nth)
  also have "\<dots> = (\<Sum>j\<le>t. if j = a then int m else 0) + (\<Sum>j\<le>t. if j = b then int n else 0)"
    by (rule sum.distrib)
  also have "\<dots> = (if a \<le> t then int m else 0) + (if b \<le> t then int n else 0)"
    by (simp add: sum.delta')
  finally show ?thesis .
qed

lemma twoLevels_cumMoment:
  assumes "a < b" "b < 256" "t < 256"
  shows "cumMoment (twoLevels a m b n) t =
           (if a \<le> t then int a * int m else 0) + (if b \<le> t then int b * int n else 0)"
proof -
  have "cumMoment (twoLevels a m b n) t
      = (\<Sum>j\<le>t. (if j = a then int a * int m else 0) + (if j = b then int b * int n else 0))"
    unfolding cumMoment_def using assms by (intro sum.cong) (auto simp: twoLevels_nth)
  also have "\<dots> = (\<Sum>j\<le>t. if j = a then int a * int m else 0) + (\<Sum>j\<le>t. if j = b then int b * int n else 0)"
    by (rule sum.distrib)
  also have "\<dots> = (if a \<le> t then int a * int m else 0) + (if b \<le> t then int b * int n else 0)"
    by (simp add: sum.delta')
  finally show ?thesis .
qed

text \<open>
  Two occupied levels \<open>a < b\<close>: the loop evaluates the levels from \<open>a\<close> to \<open>b - 1\<close>, with
  the same four integers at each of them, so it computes the same variance at each. If
  that value is positive the first of these levels is returned.
\<close>

lemma twoLevels_evaluatedAt:
  assumes "a < b" "b < 256" "j < 256" "0 < m" "0 < n"
  shows "evaluatedAt (twoLevels a m b n) (int m + int n) j \<longleftrightarrow> a \<le> j \<and> j < b"
  using assms by (auto simp: evaluatedAt_def twoLevels_cumWeight)

lemma twoLevels_computedVariance:
  assumes "a < b" "b < 256" "a \<le> j" "j < b"
  shows "computedVariance vf (twoLevels a m b n) (int m + int n) j
           = vf (int m) (int n) (int a * int m) (int a * int m + int b * int n)"
  using assms by (simp add: computedVariance_def twoLevels_cumWeight twoLevels_cumMoment)

lemma twoLevels_otsuWith:
  assumes "a < b" "b < 256" "0 < m" "0 < n"
    and pos: "0 < vf (int m) (int n) (int a * int m) (int a * int m + int b * int n)"
  shows "calculateOtsuThresholdWith vf (twoLevels a m b n) (int m + int n) = a"
proof -
  define r where "r = calculateOtsuThresholdWith vf (twoLevels a m b n) (int m + int n)"
  define c where "c = vf (int m) (int n) (int a * int m) (int a * int m + int b * int n)"
  have T: "cumWeight (twoLevels a m b n) 255 = int m + int n"
    using assms by (simp add: twoLevels_cumWeight)
  have fm: "firstComputedMax vf (twoLevels a m b n) (int m + int n) r"
    using calculateOtsuThresholdWith_firstComputedMax[of vf "twoLevels a m b n"]
    by (simp add: T r_def)
  have a256: "a < 256" using assms(1,2) by simp
  have eva: "evaluatedAt (twoLevels a m b n) (int m + int n) a"
    using twoLevels_evaluatedAt[OF assms(1,2) a256 assms(3,4)] assms(1) by simp
  have cva: "computedVariance vf (twoLevels a m b n) (int m + int n) a = c"
    using twoLevels_computedVariance[OF assms(1,2), of a] assms(1) by (simp add: c_def)
  have first: "\<not> (\<forall>j<256. evaluatedAt (twoLevels a m b n) (int m + int n) j \<longrightarrow>
                  computedVariance vf (twoLevels a m b n) (int m + int n) j \<le> 0)"
    using a256 eva cva pos c_def by fastforce
  from fm first have r256: "r < 256"
    and evr: "evaluatedAt (twoLevels a m b n) (int m + int n) r"
    and before: "\<forall>j<r. evaluatedAt (twoLevels a m b n) (int m + int n) j \<longrightarrow>
          computedVariance vf (twoLevels a m b n) (int m + int n) j
            < computedVariance vf (twoLevels a m b n) (int m + int n) r"
    unfolding firstComputedMax_def by blast+
  have rng: "a \<le> r \<and> r < b"
    using twoLevels_evaluatedAt[OF assms(1,2) r256 assms(3,4)] evr by simp
  have cvr: "computedVariance vf (twoLevels a m b n) (int m + int n) r = c"
    using twoLevels_computedVariance[OF assms(1,2), of r] rng by (simp add: c_def)
  have "\<not> a < r"
  proof
    assume "a < r"
    then have "computedVariance vf (twoLevels a m b n) (int m + int n) a
          < computedVariance vf (twoLevels a m b n) (int m + int n) r"
      using before eva by blast
    then show False by (simp add: cva cvr)
  qed
  then show ?thesis using rng unfolding r_def by simp
qed

lemma exactVarBetween_twoLevels:
  assumes "0 < m" "0 < n"
  shows "exactVarBetween (int m) (int n) (int a * int m) (int a * int m + int b * int n)
           = real m * real n * (real a - real b) * (real a - real b)"
  using assms by (simp add: exactVarBetween_def Let_def)

lemma twoLevels_otsu:
  assumes "a < b" "b < 256" "0 < m" "0 < n"
  shows "calculateOtsuThreshold (twoLevels a m b n) (int m + int n) = a"
proof -
  have neg: "real a - real b < 0" using assms(1) by simp
  have sq: "0 < (real a - real b) * (real a - real b)" using neg neg by (rule mult_neg_neg)
  have mn: "0 < real m * real n" using assms(3,4) by simp
  have "0 < real m * real n * ((real a - real b) * (real a - real b))"
    using mn sq by (rule mult_pos_pos)
  then have "0 < exactVarBetween (int m) (int n) (int a * int m) (int a * int m + int b * int n)"
    by (simp add: exactVarBetween_twoLevels[OF assms(3,4)] mult.assoc)
  then show ?thesis
    unfolding calculateOtsuThreshold_def by (rule twoLevels_otsuWith[OF assms])
qed

lemma cumWeight_sum_list:
  assumes "length h = 256"
  shows "cumWeight h 255 = int (sum_list h)"
proof -
  have "{..255::nat} = {0..<256}" by auto
  then show ?thesis
    unfolding cumWeight_def using assms by (simp add: sum_list_sum_nth)
qed

lemma twoPeakHistogram_twoLevels: "twoPeakHistogram = twoLevels 20 1000 220 1000"
  by (simp add: twoPeakHistogram_def twoLevels_def)

lemma twoPeak_thresholdWith:
  assumes "0 < vf 1000 1000 20000 240000"
  shows "calculateOtsuThresholdWith vf twoPeakHistogram 2000 = 20"
  using twoLevels_otsuWith[of 20 220 1000 1000 vf] assms by (simp add: twoPeakHistogram_twoLevels)

lemma twoPeak_threshold: "calculateOtsuThreshold twoPeakHistogram 2000 = 20"
  using twoLevels_otsu[of 20 220 1000 1000] by (simp add: twoPeakHistogram_twoLevels)

lemma exactVarBetween_twoPeak: "exactVarBetween 1000 1000 20000 240000 = 40000000000"
  by (simp add: exactVarBetween_def Let_def)

text \<open>
  Claim C2, as the code has it. On the histogram with 1000 pixels at level 20 and 1000 at
  level 220 the threshold is 20: the loop evaluates every level from 20 to 219 with the
  same integers \<open>wB = 1000\<close>, \<open>wF = 1000\<close>, \<open>sumB = 20000\<close>, \<open>sum = 240000\<close>, so it computes
  the same between-class variance at each (\<open>4 * 10\<^sup>1\<^sup>0\<close>, positive), and the comparison
  \<open>varBetween > varMax\<close> keeps the first of them. So the result is the lower peak itself,
  not a level strictly between the peaks. In general, for a histogram of 256 bins and
  \<open>totalPixels\<close> the sum of the bins, the result is the first level at which the
  between-class variance \<open>wB * wF * (mB - mF) * (mB - mF)\<close>, as the code computes it (in
  double precision, whatever the rounding), is largest among the levels where the loop
  evaluates it, and 0 when no computed variance is positive. Two levels whose variances
  are equal as real numbers can differ after rounding, so the statement is about the
  computed values.
\<close>

theorem otsu_first_maximum:
  assumes "length h = 256"
  shows "(0 < varBetweenOf 1000 1000 20000 240000 \<longrightarrow>
            calculateOtsuThresholdWith varBetweenOf twoPeakHistogram 2000 = 20) \<and>
         firstComputedMax varBetweenOf h (int (sum_list h))
           (calculateOtsuThresholdWith varBetweenOf h (int (sum_list h)))"
  using calculateOtsuThresholdWith_firstComputedMax[of varBetweenOf h]
        cumWeight_sum_list[OF assms] twoPeak_thresholdWith[of varBetweenOf]
  by simp

theorem otsu_first_maximum_witness:
  "length twoPeakHistogram = 256 \<and> 0 < exactVarBetween 1000 1000 20000 240000 \<and>
   calculateOtsuThresholdWith exactVarBetween twoPeakHistogram 2000 = 20 \<and>
   firstComputedMax exactVarBetween twoPeakHistogram (int (sum_list twoPeakHistogram))
     (calculateOtsuThresholdWith exactVarBetween twoPeakHistogram
        (int (sum_list twoPeakHistogram)))"
proof -
  have len: "length twoPeakHistogram = 256" by (simp add: twoPeakHistogram_def)
  have pos: "0 < exactVarBetween 1000 1000 20000 240000" by (simp add: exactVarBetween_twoPeak)
  show ?thesis using len pos otsu_first_maximum[OF len, of exactVarBetween] by simp
qed

text \<open>
  Claim C2 as stated (a result strictly between the peaks) fails on that histogram.
\<close>

theorem otsu_two_peak_counterexample:
  "\<not> (20 < calculateOtsuThreshold twoPeakHistogram 2000 \<and>
       calculateOtsuThreshold twoPeakHistogram 2000 < 220)"
  by (simp add: twoPeak_threshold)

section \<open>Binarization\<close>

lemma setBinary_cases:
  "setBinary white (r, g, b, a) = (if white then (255, 255, 255, a) else (0, 0, 0, a))"
  by (simp add: Let_def)

text \<open>
  Claim C8. For every threshold, both write loops (\<open>binarize\<close> of the preprocessor and
  \<open>binarizeForText\<close> of the detector) keep the number of pixels and turn each pixel
  into \<open>(255, 255, 255, a)\<close> when its gray value exceeds the threshold and into
  \<open>(0, 0, 0, a)\<close> otherwise, \<open>a\<close> being the pixel's own alpha; the two routines are these
  loops at the thresholds they compute.
\<close>

theorem binarize_two_valued:
  "length (applyThreshold t ps) = length ps \<and>
   length (applyThresholdForText t ps) = length ps \<and>
   (\<forall>i<length ps. case ps ! i of (r, g, b, a) \<Rightarrow>
      applyThreshold t ps ! i = (if luma (ps ! i) > t then (255, 255, 255, a) else (0, 0, 0, a)) \<and>
      applyThresholdForText t ps ! i =
        (if meanGray (ps ! i) > real_of_int t then (255, 255, 255, a) else (0, 0, 0, a))) \<and>
   data (binarize img) =
     applyThreshold (int (calculateOtsuThreshold (binarizeHistogram img) (int (length (data img)))))
       (data img) \<and>
   data (binarizeForText img) = applyThresholdForText (calculateAdaptiveThreshold img) (data img)"
proof -
  have nth: "case ps ! i of (r, g, b, a) \<Rightarrow>
      applyThreshold t ps ! i = (if luma (ps ! i) > t then (255, 255, 255, a) else (0, 0, 0, a)) \<and>
      applyThresholdForText t ps ! i =
        (if meanGray (ps ! i) > real_of_int t then (255, 255, 255, a) else (0, 0, 0, a))"
    if "i < length ps" for i
  proof -
    obtain r g b a where p: "ps ! i = (r, g, b, a)" by (cases "ps ! i") auto
    show ?thesis
      using that unfolding applyThreshold_def applyThresholdForText_def
      by (simp add: p setBinary_cases del: setBinary.simps)
  qed
  have "data (binarize img) =
     applyThreshold (int (calculateOtsuThreshold (binarizeHistogram img) (int (length (data img)))))
       (data img)"
    by (simp add: binarize_def Let_def)
  moreover have "data (binarizeForText img) =
      applyThresholdForText (calculateAdaptiveThreshold img) (data img)"
    by (simp add: binarizeForText_def Let_def)
  ultimately show ?thesis
    using nth by (simp add: applyThreshold_def applyThresholdForText_def)
qed

lemma luma_sample0: "luma (10, 20, 30, 40) = 18"
  by (simp add: mathRound_def)

lemma luma_sample1: "luma (200, 210, 220, 77) = 208"
  by (simp add: mathRound_def)

theorem binarize_two_valued_witness:
  "applyThreshold 100 samplePixels ! 0 = (0, 0, 0, 40) \<and>
   applyThreshold 100 samplePixels ! 1 = (255, 255, 255, 77) \<and>
   applyThresholdForText 100 samplePixels ! 0 = (0, 0, 0, 40) \<and>
   applyThresholdForText 100 samplePixels ! 1 = (255, 255, 255, 77)"
proof -
  have len: "length samplePixels = 2" by (simp add: samplePixels_def)
  have all: "\<forall>i<length samplePixels. case samplePixels ! i of (r, g, b, a) \<Rightarrow>
      applyThreshold 100 samplePixels ! i =
        (if luma (samplePixels ! i) > 100 then (255, 255, 255, a) else (0, 0, 0, a)) \<and>
      applyThresholdForText 100 samplePixels ! i =
        (if meanGray (samplePixels ! i) > real_of_int 100 then (255, 255, 255, a) else (0, 0, 0, a))"
    using binarize_two_valued[of 100 samplePixels, THEN conjunct2, THEN conjunct2, THEN conjunct1] .
  have p0: "samplePixels ! 0 = (10, 20, 30, 40)" and p1: "samplePixels ! 1 = (200, 210, 220, 77)"
    by (simp_all add: samplePixels_def)
  have "0 < length samplePixels" using len by simp
  from all[rule_format, OF this] have r0:
    "applyThreshold 100 samplePixels ! 0 = (0, 0, 0, 40) \<and>
     applyThresholdForText 100 samplePixels ! 0 = (0, 0, 0, 40)"
    unfolding p0 by (simp add: luma_sample0 del: luma.simps)
  have "1 < length samplePixels" using len by simp
  from all[rule_format, OF this] have r1:
    "applyThreshold 100 samplePixels ! 1 = (255, 255, 255, 77) \<and>
     applyThresholdForText 100 samplePixels ! 1 = (255, 255, 255, 77)"
    unfolding p1 by (simp add: luma_sample1 del: luma.simps)
  show ?thesis using r0 r1 by blast
qed

section \<open>Pipeline with detection disabled\<close>

text \<open>
  Claim C6. With \<open>useTextDetection = false\<close> the result has no regions and exactly one
  processed image, the globally enhanced one, whatever the other flags are.
\<close>

theorem detection_disabled_global_only:
  assumes "\<not> useTextDetection options"
  shows "regions (detectAndExtractText img options) = [] \<and>
         processedImages (detectAndExtractText img options) = [GlobalFile]"
  using assms by (simp add: detectAndExtractText_def detectRegions_def Let_def)

theorem detection_disabled_global_only_witness:
  "\<not> useTextDetection (defaultOptions\<lparr>useTextDetection := False\<rparr>) \<and>
   regions (detectAndExtractText blackWhiteImage (defaultOptions\<lparr>useTextDetection := False\<rparr>)) = [] \<and>
   processedImages (detectAndExtractText blackWhiteImage (defaultOptions\<lparr>useTextDetection := False\<rparr>))
     = [GlobalFile]"
proof -
  have h: "\<not> useTextDetection (defaultOptions\<lparr>useTextDetection := False\<rparr>)" by simp
  show ?thesis using h detection_disabled_global_only[OF h, of blackWhiteImage] by simp
qed

section \<open>Histograms\<close>

lemma incrementBin_length: "length (incrementBin h g) = length h"
  by (simp add: incrementBin_def)

lemma incrementBin_nth:
  assumes "k < length h"
  shows "incrementBin h g ! k = h ! k + (if g = int k then 1 else 0)"
  using assms by (auto simp: incrementBin_def nth_list_update)

lemma fold_incrementBin_length:
  "length (fold (\<lambda>p h. incrementBin h (gray p)) ps h) = length h"
  by (induction ps arbitrary: h) (simp_all add: incrementBin_length)

lemma fold_incrementBin_nth:
  assumes "k < length h"
  shows "fold (\<lambda>p h. incrementBin h (gray p)) ps h ! k
           = h ! k + length (filter (\<lambda>p. gray p = int k) ps)"
  using assms
proof (induction ps arbitrary: h)
  case Nil
  show ?case by simp
next
  case (Cons p ps)
  have "k < length (incrementBin h (gray p))" using Cons.prems by (simp add: incrementBin_length)
  from Cons.IH[OF this] show ?case
    using Cons.prems by (simp add: incrementBin_nth)
qed

lemma buildHistogram_length: "length (buildHistogram gray ps) = 256"
  by (simp add: buildHistogram_def fold_incrementBin_length)

lemma buildHistogram_nth:
  assumes "k < 256"
  shows "buildHistogram gray ps ! k = length (filter (\<lambda>p. gray p = int k) ps)"
  unfolding buildHistogram_def using assms by (simp add: fold_incrementBin_nth)

lemma mathRound_of_nat: "mathRound (real n) = int n"
  unfolding mathRound_def by linarith

lemma luma_gray: "luma (v, v, v, a) = int v"
proof -
  have "0.299 * real v + 0.587 * real v + 0.114 * real v = real v" by (simp add: algebra_simps)
  then show ?thesis by (simp add: mathRound_of_nat)
qed

lemma roundedMeanGray_gray: "roundedMeanGray (v, v, v, a) = int v"
  by (simp add: roundedMeanGray_def mathRound_of_nat)

lemma buildHistogram_cong:
  assumes "\<And>p. p \<in> set ps \<Longrightarrow> f p = g p"
  shows "buildHistogram f ps = buildHistogram g ps"
proof -
  have "fold (\<lambda>p h. incrementBin h (f p)) ps h = fold (\<lambda>p h. incrementBin h (g p)) ps h" for h
    using assms by (induction ps arbitrary: h) simp_all
  then show ?thesis by (simp add: buildHistogram_def)
qed

section \<open>A gray value equal to the threshold\<close>

lemma findHistogramPeaks_none:
  assumes "\<And>i. i < length h \<Longrightarrow> h ! i \<le> 100"
  shows "findHistogramPeaks h = []"
proof -
  have "filter (\<lambda>i. h ! i > h ! (i - 1) \<and> h ! i > h ! (i + 1) \<and> h ! i > 100) [1..<length h - 1] = []"
    using assms by (auto simp: filter_empty_conv leD)
  then show ?thesis by (simp add: findHistogramPeaks_def)
qed

lemma luma_black: "luma (0, 0, 0, 255) = 0"
  using luma_gray[of 0 255] by simp

lemma luma_white: "luma (255, 255, 255, 255) = 255"
  using luma_gray[of 255 255] by simp

lemma roundedMeanGray_black: "roundedMeanGray (0, 0, 0, 255) = 0"
  using roundedMeanGray_gray[of 0 255] by simp

lemma roundedMeanGray_white: "roundedMeanGray (255, 255, 255, 255) = 255"
  using roundedMeanGray_gray[of 255 255] by simp

lemma blackWhite_histogram:
  assumes "gray (0, 0, 0, 255) = 0" "gray (255, 255, 255, 255) = 255"
  shows "buildHistogram gray (data blackWhiteImage) = twoLevels 0 1 255 1"
  using assms by (simp add: buildHistogram_def blackWhiteImage_def incrementBin_def twoLevels_def)

lemma blackWhite_binarizeHistogram: "binarizeHistogram blackWhiteImage = twoLevels 0 1 255 1"
  unfolding binarizeHistogram_def by (rule blackWhite_histogram[OF luma_black luma_white])

lemma blackWhite_adaptiveHistogram: "adaptiveHistogram blackWhiteImage = twoLevels 0 1 255 1"
  unfolding adaptiveHistogram_def
  by (rule blackWhite_histogram[OF roundedMeanGray_black roundedMeanGray_white])

lemma twoLevels_length: "length (twoLevels a m b n) = 256"
  by (simp add: twoLevels_def)

lemma blackWhite_otsu: "calculateOtsuThreshold (twoLevels 0 1 255 1) 2 = 0"
  using twoLevels_otsu[of 0 255 1 1] by simp

lemma blackWhite_pixel_count: "int (length (data blackWhiteImage)) = 2"
  by (simp add: blackWhiteImage_def)

lemma blackWhite_binarize_threshold:
  "calculateOtsuThreshold (binarizeHistogram blackWhiteImage)
     (int (length (data blackWhiteImage))) = 0"
  unfolding blackWhite_binarizeHistogram blackWhite_pixel_count by (rule blackWhite_otsu)

lemma blackWhite_adaptive_threshold: "calculateAdaptiveThreshold blackWhiteImage = 0"
proof -
  have "findHistogramPeaks (twoLevels 0 1 255 1) = []"
    by (rule findHistogramPeaks_none) (simp add: twoLevels_length twoLevels_nth)
  then show ?thesis
    unfolding calculateAdaptiveThreshold_def Let_def blackWhite_adaptiveHistogram
      blackWhite_pixel_count
    using blackWhite_otsu by simp
qed

text \<open>
  Claim C9. In \<open>binarize\<close> and in \<open>binarizeForText\<close> a pixel whose gray value equals the
  threshold the routine computed becomes black: only a gray value strictly above the
  threshold gives white.
\<close>

theorem gray_equal_threshold_black:
  assumes "i < length (data img)"
  shows "(luma (data img ! i)
            = int (calculateOtsuThreshold (binarizeHistogram img) (int (length (data img))))
          \<longrightarrow> (case data img ! i of (r, g, b, a) \<Rightarrow> data (binarize img) ! i = (0, 0, 0, a))) \<and>
         (meanGray (data img ! i) = real_of_int (calculateAdaptiveThreshold img)
          \<longrightarrow> (case data img ! i of (r, g, b, a) \<Rightarrow> data (binarizeForText img) ! i = (0, 0, 0, a)))"
proof -
  obtain r g b a where p: "data img ! i = (r, g, b, a)" by (cases "data img ! i") auto
  show ?thesis
    using assms
    by (simp add: binarize_def binarizeForText_def Let_def applyThreshold_def
        applyThresholdForText_def p setBinary_cases del: setBinary.simps luma.simps meanGray.simps)
qed

theorem gray_equal_threshold_black_witness:
  "0 < length (data blackWhiteImage) \<and>
   luma (data blackWhiteImage ! 0)
     = int (calculateOtsuThreshold (binarizeHistogram blackWhiteImage)
              (int (length (data blackWhiteImage)))) \<and>
   meanGray (data blackWhiteImage ! 0) = real_of_int (calculateAdaptiveThreshold blackWhiteImage) \<and>
   data (binarize blackWhiteImage) ! 0 = (0, 0, 0, 255) \<and>
   data (binarizeForText blackWhiteImage) ! 0 = (0, 0, 0, 255)"
proof -
  have i: "0 < length (data blackWhiteImage)" by (simp add: blackWhiteImage_def)
  have p: "data blackWhiteImage ! 0 = (0, 0, 0, 255)" by (simp add: blackWhiteImage_def)
  have l: "luma (data blackWhiteImage ! 0)
     = int (calculateOtsuThreshold (binarizeHistogram blackWhiteImage)
              (int (length (data blackWhiteImage))))"
    unfolding p blackWhite_binarize_threshold by (simp add: luma_black del: luma.simps)
  have m: "meanGray (data blackWhiteImage ! 0) = real_of_int (calculateAdaptiveThreshold blackWhiteImage)"
    unfolding p blackWhite_adaptive_threshold by simp
  show ?thesis
    using i l m gray_equal_threshold_black[OF i] unfolding p by simp
qed

section \<open>Region merger\<close>

lemma regionDistance_near:
  "regionDistance a b < 50 \<longleftrightarrow>
     (region_x a - region_x b)\<^sup>2 + (region_y a - region_y b)\<^sup>2 < 2500"
proof -
  have "sqrt (real_of_int ((region_x a - region_x b)\<^sup>2 + (region_y a - region_y b)\<^sup>2)) < sqrt (50\<^sup>2)
      \<longleftrightarrow> real_of_int ((region_x a - region_x b)\<^sup>2 + (region_y a - region_y b)\<^sup>2) < 50\<^sup>2"
    by (rule real_sqrt_less_iff)
  moreover have "(50::real)\<^sup>2 = real_of_int 2500" by simp
  then have "real_of_int ((region_x a - region_x b)\<^sup>2 + (region_y a - region_y b)\<^sup>2) < 50\<^sup>2
      \<longleftrightarrow> (region_x a - region_x b)\<^sup>2 + (region_y a - region_y b)\<^sup>2 < 2500"
    by (simp only: of_int_less_iff)
  ultimately show ?thesis by (simp add: regionDistance_def)
qed

lemma region_near:
  "regionDistance (region x1 y1 w1 h1 c1) (region x2 y2 w2 h2 c2) < 50
     \<longleftrightarrow> (x1 - x2)\<^sup>2 + (y1 - y2)\<^sup>2 < 2500"
  by (simp add: regionDistance_near region_def)

lemma region_expand:
  "expandRegion (region x1 y1 w1 h1 c1) (region x2 y2 w2 h2 c2)
     = region (min x1 x2) (min y1 y2) (max (x1 + w1) (x2 + w2) - min x1 x2)
         (max (y1 + h1) (y2 + h2) - min y1 y2) (max c1 c2)"
  by (simp add: expandRegion_def region_def Let_def)

lemma region_largeEnough: "largeEnough (region x y w h c) \<longleftrightarrow> 20 < w \<and> 10 < h"
  by (simp add: largeEnough_def region_def)

lemma region_eq:
  "region x1 y1 w1 h1 c1 = region x2 y2 w2 h2 c2
     \<longleftrightarrow> x1 = x2 \<and> y1 = y2 \<and> w1 = w2 \<and> h1 = h2 \<and> c1 = c2"
  by (auto simp: region_def)

lemma absorbNearby_far:
  assumes "list_all (\<lambda>s. \<not> regionDistance cur s < 50) rs"
  shows "absorbNearby cur rs = (cur, rs)"
  using assms by (induction rs) simp_all

lemma mergeLoop_far: "cornersApart rs \<Longrightarrow> mergeLoop rs = rs"
  by (induction rs) (simp_all add: absorbNearby_far)

lemma mergeNearbyRegions_large:
  "r \<in> set (mergeNearbyRegions rs) \<Longrightarrow> largeEnough r"
  by (simp add: mergeNearbyRegions_def)

text \<open>
  Claim C4, as the code has it. A second pass of the merger changes nothing when the
  corners of the regions the first pass returned are pairwise at least 50 apart. (The
  first pass compares a later region with the corner of the anchor as expanded so far,
  so it can return regions whose corners are closer than that.)
\<close>

theorem merge_idempotent_when_apart:
  assumes "cornersApart (mergeNearbyRegions rs)"
  shows "mergeNearbyRegions (mergeNearbyRegions rs) = mergeNearbyRegions rs"
proof -
  have "mergeLoop (mergeNearbyRegions rs) = mergeNearbyRegions rs"
    using assms by (rule mergeLoop_far)
  then have "mergeNearbyRegions (mergeNearbyRegions rs) = filter largeEnough (mergeNearbyRegions rs)"
    by (simp add: mergeNearbyRegions_def)
  also have "\<dots> = mergeNearbyRegions rs"
    by (simp add: mergeNearbyRegions_def)
  finally show ?thesis .
qed

lemma separated_merge:
  "mergeNearbyRegions separatedCandidates = [region 0 0 40 20 0.9, region 100 0 30 30 0.4]"
  by (simp add: mergeNearbyRegions_def separatedCandidates_def region_near region_expand
      region_largeEnough)

theorem merge_idempotent_when_apart_witness:
  "cornersApart (mergeNearbyRegions separatedCandidates) \<and>
   mergeNearbyRegions separatedCandidates = [region 0 0 40 20 0.9, region 100 0 30 30 0.4] \<and>
   mergeNearbyRegions (mergeNearbyRegions separatedCandidates)
     = [region 0 0 40 20 0.9, region 100 0 30 30 0.4]"
proof -
  have apart: "cornersApart (mergeNearbyRegions separatedCandidates)"
    unfolding separated_merge by (simp add: region_near)
  show ?thesis
    using apart merge_idempotent_when_apart[OF apart] unfolding separated_merge by simp
qed

lemma scanOrder_merge:
  "mergeNearbyRegions scanOrderCandidates = [region 20 0 60 40 0.5, region 0 20 40 60 0.5]"
  by (simp add: mergeNearbyRegions_def scanOrderCandidates_def region_near region_expand
      region_largeEnough)

lemma scanOrder_merge_twice:
  "mergeNearbyRegions (mergeNearbyRegions scanOrderCandidates) = [region 0 0 80 80 0.5]"
  unfolding scanOrder_merge
  by (simp add: mergeNearbyRegions_def region_near region_expand region_largeEnough)

text \<open>
  Claim C4 as stated fails: four blocks in scan order merge into two regions whose
  corners are 28.3 apart, and a second pass merges those two into one.
\<close>

theorem merge_not_idempotent_counterexample:
  "mergeNearbyRegions (mergeNearbyRegions scanOrderCandidates)
     \<noteq> mergeNearbyRegions scanOrderCandidates"
  by (simp only: scanOrder_merge_twice) (simp add: scanOrder_merge)

section \<open>Blocks, gradients and the Sobel pass\<close>

text \<open>
  A block that lies inside the buffer has all its offsets in range; its pixels can then
  be read row by row or by a flat index, and sums and counts over it are double sums.
\<close>

lemma blockOffsets_in_range:
  assumes "x + n \<le> w" "(y + n) * w \<le> len" "p \<in> set (blockOffsets w x y n)"
  shows "p < len"
proof -
  from assms(3) obtain dy dx where d: "dy < n" "dx < n" "p = (y + dy) * w + (x + dx)"
    by (auto simp: blockOffsets_def)
  have "x + dx < w" using d(2) assms(1) by simp
  then have "p < (y + dy) * w + w" using d(3) by simp
  also have "\<dots> = (y + dy + 1) * w" by (simp add: algebra_simps)
  also have "\<dots> \<le> (y + n) * w" using d(1) by (intro mult_le_mono1) simp
  finally show ?thesis using assms(2) by simp
qed

lemma blockPixels_nested:
  assumes "x + n \<le> w" "(y + n) * w \<le> length ps"
  shows "blockPixels ps w x y n
           = concat (map (\<lambda>dy. map (\<lambda>dx. ps ! ((y + dy) * w + (x + dx))) [0..<n]) [0..<n])"
proof -
  have "filter (\<lambda>p. p < length ps) (blockOffsets w x y n) = blockOffsets w x y n"
    using blockOffsets_in_range[OF assms] by (simp add: filter_id_conv)
  then show ?thesis
    by (simp add: blockPixels_def blockOffsets_def map_concat comp_def)
qed

lemma sum_list_rows:
  "sum_list (map f (concat (map (\<lambda>dy. map (g dy) [0..<n]) ys)))
     = (\<Sum>dy\<leftarrow>ys. \<Sum>dx = 0..<n. f (g dy dx))"
  by (induction ys) (simp_all add: interv_sum_list_conv_sum_set_nat comp_def)

lemma blockPixels_sum:
  assumes "x + n \<le> w" "(y + n) * w \<le> length ps"
  shows "sum_list (map f (blockPixels ps w x y n))
           = (\<Sum>dy = 0..<n. \<Sum>dx = 0..<n. f (ps ! ((y + dy) * w + (x + dx))))"
  unfolding blockPixels_nested[OF assms] sum_list_rows
  by (simp add: interv_sum_list_conv_sum_set_nat)

lemma blockPixels_length:
  assumes "x + n \<le> w" "(y + n) * w \<le> length ps"
  shows "length (blockPixels ps w x y n) = n * n"
proof -
  have "length (blockPixels ps w x y n) = sum_list (map (\<lambda>p. 1) (blockPixels ps w x y n))"
    by (simp add: sum_list_triv)
  also have "\<dots> = (\<Sum>dy = 0..<n. \<Sum>dx = 0..<n. 1)" by (rule blockPixels_sum[OF assms])
  also have "\<dots> = n * n" by simp
  finally show ?thesis .
qed

lemma length_filter_sum_list: "length (filter P xs) = (\<Sum>x\<leftarrow>xs. if P x then 1 else 0)"
  by (induction xs) simp_all

lemma blockPixels_count:
  assumes "x + n \<le> w" "(y + n) * w \<le> length ps"
  shows "length (filter P (blockPixels ps w x y n))
           = (\<Sum>dy = 0..<n. \<Sum>dx = 0..<n. if P (ps ! ((y + dy) * w + (x + dx))) then 1 else 0)"
  unfolding length_filter_sum_list by (rule blockPixels_sum[OF assms])

lemma concat_rows_flat:
  "concat (map (\<lambda>dy. map (g dy) [0..<n]) [0..<m]) = map (\<lambda>i. g (i div n) (i mod n)) [0..<m * n]"
proof (induction m)
  case 0
  show ?case by simp
next
  case (Suc m)
  have last: "map (\<lambda>i. g (i div n) (i mod n)) [m * n..<m * n + n] = map (g m) [0..<n]"
  proof (rule nth_equalityI)
    show "length (map (\<lambda>i. g (i div n) (i mod n)) [m * n..<m * n + n]) = length (map (g m) [0..<n])"
      by simp
  next
    fix i
    assume "i < length (map (\<lambda>i. g (i div n) (i mod n)) [m * n..<m * n + n])"
    then have i: "i < n" by simp
    then have "(m * n + i) div n = m" "(m * n + i) mod n = i" by simp_all
    then show "map (\<lambda>i. g (i div n) (i mod n)) [m * n..<m * n + n] ! i = map (g m) [0..<n] ! i"
      using i by simp
  qed
  have split: "[0..<m * n + n] = [0..<m * n] @ [m * n..<m * n + n]"
    by (rule upt_add_eq_append) simp
  have "concat (map (\<lambda>dy. map (g dy) [0..<n]) [0..<Suc m])
      = concat (map (\<lambda>dy. map (g dy) [0..<n]) [0..<m]) @ map (g m) [0..<n]"
    by simp
  also have "\<dots> = map (\<lambda>i. g (i div n) (i mod n)) [0..<m * n] @ map (g m) [0..<n]"
    by (simp only: Suc.IH)
  also have "\<dots> = map (\<lambda>i. g (i div n) (i mod n)) ([0..<m * n] @ [m * n..<m * n + n])"
    by (simp only: map_append last)
  also have "\<dots> = map (\<lambda>i. g (i div n) (i mod n)) [0..<m * n + n]"
    by (simp only: split)
  also have "m * n + n = Suc m * n" by simp
  finally show ?case .
qed

lemma blockPixels_flat:
  assumes "x + n \<le> w" "(y + n) * w \<le> length ps"
  shows "blockPixels ps w x y n
           = map (\<lambda>i. ps ! ((y + i div n) * w + (x + i mod n))) [0..<n * n]"
  unfolding blockPixels_nested[OF assms] by (rule concat_rows_flat)

lemma sum_from:
  assumes "a \<le> n"
  shows "(\<Sum>i = 0..<n. if a \<le> i then c else 0) = (n - a) * (c::nat)"
proof -
  have "{0..<n} \<inter> {i. a \<le> i} = {a..<n}" by auto
  then show ?thesis by (simp add: sum.If_cases)
qed

lemma sum_below:
  assumes "a \<le> n"
  shows "(\<Sum>i = 0..<n. if i < a then c else 0) = a * (c::nat)"
proof -
  have "{0..<n} \<inter> {i. i < a} = {0..<a}" using assms by auto
  then show ?thesis by (simp add: sum.If_cases)
qed

lemma sum_at:
  assumes "a < (n::nat)"
  shows "(\<Sum>i = 0..<n. if i = a then c else 0) = (c::nat)"
  using assms by simp

lemma upt_3: "[0..<3] = [0, 1, 2]"
  by (simp add: upt_rec)

lemma gradient_sobelX:
  "gradient ps w sobelX x y =
     (grayAt ps w (x + 1) (y - 1) - grayAt ps w (x - 1) (y - 1))
     + 2 * (grayAt ps w (x + 1) y - grayAt ps w (x - 1) y)
     + (grayAt ps w (x + 1) (y + 1) - grayAt ps w (x - 1) (y + 1))"
proof -
  have a: "n + 2 - 1 = n + 1" for n :: nat by simp
  show ?thesis
    by (simp add: gradient_def upt_3 sobelX_def grayAt_def a del: meanGray.simps)
qed

lemma gradient_sobelY:
  "gradient ps w sobelY x y =
     (grayAt ps w (x - 1) (y + 1) + 2 * grayAt ps w x (y + 1) + grayAt ps w (x + 1) (y + 1))
     - (grayAt ps w (x - 1) (y - 1) + 2 * grayAt ps w x (y - 1) + grayAt ps w (x + 1) (y - 1))"
proof -
  have a: "n + 2 - 1 = n + 1" for n :: nat by simp
  show ?thesis
    by (simp add: gradient_def upt_3 sobelY_def grayAt_def a del: meanGray.simps)
qed

text \<open>
  The two nested loops of \<open>sobelEdgeDetection\<close> write every interior pixel once and leave
  the border at its initial value.
\<close>

lemma fold_update_length:
  "length (fold (\<lambda>x e. e[g x := f x]) xs e) = length e"
  by (induction xs arbitrary: e) simp_all

lemma fold_update_row_nth:
  assumes "p < length e"
  shows "fold (\<lambda>x e. e[base + x := f x]) xs e ! p
           = (if \<exists>x\<in>set xs. p = base + x then f (p - base) else e ! p)"
  using assms
proof (induction xs arbitrary: e)
  case Nil
  show ?case by simp
next
  case (Cons x xs)
  have "p < length (e[base + x := f x])" using Cons.prems by simp
  from Cons.IH[OF this] show ?case using Cons.prems by (auto simp: nth_list_update)
qed

lemma fold_update_grid_length:
  "length (fold (\<lambda>y e. fold (\<lambda>x e. e[y * w + x := f x y]) xs e) ys e) = length e"
  by (induction ys arbitrary: e) (simp_all add: fold_update_length)

lemma fold_update_grid_nth:
  assumes "p < length e" "\<And>x. x \<in> set xs \<Longrightarrow> x < w"
  shows "fold (\<lambda>y e. fold (\<lambda>x e. e[y * w + x := f x y]) xs e) ys e ! p
           = (if p div w \<in> set ys \<and> p mod w \<in> set xs then f (p mod w) (p div w) else e ! p)"
  using assms(1)
proof (induction ys arbitrary: e)
  case Nil
  show ?case by simp
next
  case (Cons y ys)
  define e' where "e' = fold (\<lambda>x e. e[y * w + x := f x y]) xs e"
  have len: "p < length e'" using Cons.prems by (simp add: e'_def fold_update_length)
  have row: "e' ! p = (if \<exists>x\<in>set xs. p = y * w + x then f (p - y * w) y else e ! p)"
    unfolding e'_def using Cons.prems by (rule fold_update_row_nth)
  have iff: "(\<exists>x\<in>set xs. p = y * w + x) \<longleftrightarrow> (p div w = y \<and> p mod w \<in> set xs)"
  proof
    assume "\<exists>x\<in>set xs. p = y * w + x"
    then obtain x where x: "x \<in> set xs" "p = y * w + x" by blast
    then have "x < w" using assms(2) by simp
    then show "p div w = y \<and> p mod w \<in> set xs" using x by simp
  next
    assume a: "p div w = y \<and> p mod w \<in> set xs"
    then have "p = y * w + p mod w" by (metis div_mult_mod_eq)
    then show "\<exists>x\<in>set xs. p = y * w + x" using a by blast
  qed
  have sub: "p div w = y \<Longrightarrow> p - y * w = p mod w"
    by (metis add_diff_cancel_left' div_mult_mod_eq)
  have "fold (\<lambda>y e. fold (\<lambda>x e. e[y * w + x := f x y]) xs e) (y # ys) e ! p
      = fold (\<lambda>y e. fold (\<lambda>x e. e[y * w + x := f x y]) xs e) ys e' ! p"
    by (simp add: e'_def)
  also have "\<dots> = (if p div w \<in> set ys \<and> p mod w \<in> set xs then f (p mod w) (p div w) else e' ! p)"
    by (rule Cons.IH[OF len])
  finally show ?case using row iff sub by auto
qed

lemma sobel_length: "length (data (sobelEdgeDetection img)) = length (data img)"
  by (simp add: sobelEdgeDetection_def fold_update_grid_length)

lemma sobel_nth:
  assumes "p < length (data img)"
  shows "data (sobelEdgeDetection img) ! p
           = (if 1 \<le> p div width img \<and> p div width img < height img - 1 \<and>
                 1 \<le> p mod width img \<and> p mod width img < width img - 1
              then edgePixel (data img) (width img) (p mod width img) (p div width img)
              else (0, 0, 0, 0))"
proof -
  have "fold (\<lambda>y e. fold (\<lambda>x e. e[y * width img + x := edgePixel (data img) (width img) x y])
                 [1..<width img - 1] e)
          [1..<height img - 1] (replicate (length (data img)) (0, 0, 0, 0)) ! p
      = (if p div width img \<in> set [1..<height img - 1] \<and> p mod width img \<in> set [1..<width img - 1]
         then edgePixel (data img) (width img) (p mod width img) (p div width img)
         else replicate (length (data img)) (0, 0, 0, 0) ! p)"
    by (rule fold_update_grid_nth) (use assms in auto)
  then show ?thesis using assms by (auto simp: sobelEdgeDetection_def)
qed

lemma edgeByte_high:
  assumes "65025 \<le> v"
  shows "toUint8Clamp (min 255 (sqrt v)) = 255"
proof -
  have "sqrt (255\<^sup>2) \<le> sqrt v" using assms by (intro real_sqrt_le_mono) simp
  then have "255 \<le> sqrt v" by simp
  then have "min 255 (sqrt v) = 255" by simp
  then show ?thesis by (simp add: toUint8Clamp_def)
qed

lemma edgeByte_zero: "toUint8Clamp (min 255 (sqrt 0)) = 0"
  by (simp add: toUint8Clamp_def)

section \<open>Histograms of the two threshold paths\<close>

subsection \<open>The luma of a gray pixel\<close>

text \<open>
  With an accurate rounding the computed weighted sum of a pixel \<open>(v, v, v)\<close> is within
  \<open>770 / 2 ^ 40\<close> of \<open>v\<close>, so \<open>Math.round\<close> gives \<open>v\<close>.
\<close>

lemma accurateRounding_bound:
  assumes "accurateRounding rnd" "\<bar>v\<bar> \<le> 1000"
  shows "\<bar>rnd v - v\<bar> \<le> 1 / 2 ^ 40"
  using assms unfolding accurateRounding_def by blast

lemma rounded_product:
  assumes acc: "accurateRounding rnd" and k: "0 \<le> k" "k \<le> 1" and x: "0 \<le> x" "x \<le> 255"
  shows "\<bar>rnd (rnd k * x) - k * x\<bar> \<le> 256 * (1 / 2 ^ 40)"
proof -
  define d :: real where "d = 1 / 2 ^ 40"
  have d: "0 \<le> d" "d \<le> 1" by (simp_all add: d_def)
  have "\<bar>k\<bar> \<le> 1000" using k by simp
  then have c: "\<bar>rnd k - k\<bar> \<le> d" unfolding d_def by (rule accurateRounding_bound[OF acc])
  have "\<bar>rnd k * x - k * x\<bar> = \<bar>rnd k - k\<bar> * x"
    using x(1) by (simp add: abs_mult left_diff_distrib[symmetric])
  also have "\<dots> \<le> d * 255"
    using c x d by (intro mult_mono) simp_all
  finally have e: "\<bar>rnd k * x - k * x\<bar> \<le> 255 * d" by simp
  have "k * x \<le> 1 * 255" using k x by (intro mult_mono) simp_all
  then have kx: "k * x \<le> 255" by simp
  have kx0: "0 \<le> k * x" using k x by simp
  have "\<bar>rnd k * x\<bar> \<le> 1000" using e kx kx0 d by linarith
  then have "\<bar>rnd (rnd k * x) - rnd k * x\<bar> \<le> d"
    unfolding d_def by (rule accurateRounding_bound[OF acc])
  then have "\<bar>rnd (rnd k * x) - k * x\<bar> \<le> 256 * d" using e by linarith
  then show ?thesis by (simp only: d_def)
qed

lemma lumaWith_gray:
  assumes acc: "accurateRounding rnd" and v: "v \<le> 255"
  shows "lumaWith rnd (v, v, v, a) = int v"
proof -
  define d :: real where "d = 1 / 2 ^ 40"
  have d: "0 \<le> d" "d \<le> 1 / 10000" by (simp_all add: d_def)
  define x where "x = real v"
  define p1 where "p1 = rnd (rnd (299 / 1000) * x)"
  define p2 where "p2 = rnd (rnd (587 / 1000) * x)"
  define p3 where "p3 = rnd (rnd (114 / 1000) * x)"
  define s1 where "s1 = rnd (p1 + p2)"
  define s2 where "s2 = rnd (s1 + p3)"
  have x: "0 \<le> x" "x \<le> 255" using v by (simp_all add: x_def)
  have e1: "\<bar>p1 - 299 / 1000 * x\<bar> \<le> 256 * d"
    unfolding p1_def d_def by (rule rounded_product[OF acc _ _ x]) simp_all
  have e2: "\<bar>p2 - 587 / 1000 * x\<bar> \<le> 256 * d"
    unfolding p2_def d_def by (rule rounded_product[OF acc _ _ x]) simp_all
  have e3: "\<bar>p3 - 114 / 1000 * x\<bar> \<le> 256 * d"
    unfolding p3_def d_def by (rule rounded_product[OF acc _ _ x]) simp_all
  have "\<bar>p1 + p2\<bar> \<le> 1000" using e1 e2 x d by linarith
  then have e4: "\<bar>s1 - (p1 + p2)\<bar> \<le> d"
    unfolding s1_def d_def by (rule accurateRounding_bound[OF acc])
  have "\<bar>s1 + p3\<bar> \<le> 1000" using e1 e2 e3 e4 x d by linarith
  then have e5: "\<bar>s2 - (s1 + p3)\<bar> \<le> d"
    unfolding s2_def d_def by (rule accurateRounding_bound[OF acc])
  have near: "x - 1 / 4 < s2 \<and> s2 < x + 1 / 4"
    using e1 e2 e3 e4 e5 d by linarith
  have "\<lfloor>s2 + 1 / 2\<rfloor> = int v"
  proof (rule floor_unique)
    show "of_int (int v) \<le> s2 + 1 / 2" using near by (simp add: x_def)
    show "s2 + 1 / 2 < of_int (int v) + 1" using near by (simp add: x_def)
  qed
  then show ?thesis
    by (simp add: mathRound_def s2_def s1_def p1_def p2_def p3_def x_def)
qed

lemma grayByte_agree:
  assumes "accurateRounding rnd" "grayByte p"
  shows "roundedMeanGray p = lumaWith rnd p"
proof -
  obtain r g b a where p: "p = (r, g, b, a)" by (cases p)
  then have "g = r" "b = r" "r \<le> 255" using assms(2) by (simp_all add: grayByte_def)
  then show ?thesis
    using lumaWith_gray[OF assms(1), of r a] by (simp add: p roundedMeanGray_gray del: lumaWith.simps)
qed

subsection \<open>The buffer that reaches the adaptive threshold\<close>

text \<open>
  \<open>removeColorNoise\<close> leaves a buffer whose pixels all have \<open>R = G = B\<close>, and \<open>sharpenText\<close>
  keeps that: it treats the three colour channels alike.
\<close>

lemma toUint8Clamp_le: "toUint8Clamp v \<le> 255"
proof -
  have "nat \<lfloor>v\<rfloor> \<le> 255 \<and> nat (\<lfloor>v\<rfloor> + 1) \<le> 255" if "v < 255"
  proof -
    have "\<lfloor>v\<rfloor> < 255" using that by (simp add: floor_less_iff)
    then show ?thesis by linarith
  qed
  then show ?thesis by (auto simp: toUint8Clamp_def Let_def not_le)
qed

lemma removeColorNoise_gray: "list_all grayByte (data (removeColorNoise rnd img))"
  by (simp add: removeColorNoise_def list_all_iff grayByte_def Let_def toUint8Clamp_le
      split: prod.splits del: lumaWith.simps)

lemma removeColorNoise_shape:
  "width (removeColorNoise rnd img) = width img \<and> height (removeColorNoise rnd img) = height img \<and>
   length (data (removeColorNoise rnd img)) = length (data img)"
  by (simp add: removeColorNoise_def)

lemma increaseContrast_shape:
  "width (increaseContrast img f) = width img \<and> height (increaseContrast img f) = height img \<and>
   length (data (increaseContrast img f)) = length (data img)"
  by (simp add: increaseContrast_def)

lemma grid_index_less:
  fixes r c w h :: nat
  assumes "r < h" "c < w"
  shows "r * w + c < w * h"
proof -
  have "r * w + c < r * w + w" using assms(2) by simp
  also have "\<dots> = (r + 1) * w" by simp
  also have "\<dots> \<le> h * w" using assms(1) by (intro mult_le_mono1) simp
  finally show ?thesis by (simp add: mult.commute)
qed

lemma channel_gray: "grayByte p \<Longrightarrow> c < 3 \<Longrightarrow> channel c p = channel 0 p"
  by (cases p) (auto simp: grayByte_def)

lemma kernelSum_gray:
  assumes gray: "list_all grayByte ps" and len: "length ps = w * h"
    and xy: "1 \<le> x" "x + 1 < w" "1 \<le> y" "y + 1 < h" and c: "c < 3"
  shows "kernelSum ps w c x y = kernelSum ps w 0 x y"
proof -
  have eq: "channel c (ps ! ((y + ky - 1) * w + (x + kx - 1)))
          = channel 0 (ps ! ((y + ky - 1) * w + (x + kx - 1)))"
    if "ky \<in> set [0..<3]" "kx \<in> set [0..<3]" for ky kx
  proof -
    have "y + ky - 1 < h" "x + kx - 1 < w" using that xy by simp_all
    then have "(y + ky - 1) * w + (x + kx - 1) < length ps"
      unfolding len by (rule grid_index_less)
    then have "grayByte (ps ! ((y + ky - 1) * w + (x + kx - 1)))"
      using gray by (simp add: list_all_length)
    then show ?thesis using c by (rule channel_gray)
  qed
  show ?thesis
    unfolding kernelSum_def
  proof (intro arg_cong[where f = sum_list] map_cong refl)
    fix ky kx assume "ky \<in> set [0..<3]" "kx \<in> set [0..<3]"
    then show "int (channel c (ps ! ((y + ky - 1) * w + (x + kx - 1)))) * sharpenKernel ! (ky * 3 + kx)
        = int (channel 0 (ps ! ((y + ky - 1) * w + (x + kx - 1)))) * sharpenKernel ! (ky * 3 + kx)"
      by (simp only: eq)
  qed
qed

lemma sharpPixel_gray:
  assumes "list_all grayByte ps" "length ps = w * h" "1 \<le> x" "x + 1 < w" "1 \<le> y" "y + 1 < h"
  shows "grayByte (sharpPixel ps w x y)"
proof -
  have k1: "kernelSum ps w 1 x y = kernelSum ps w 0 x y"
    by (rule kernelSum_gray[OF assms]) simp
  have k2: "kernelSum ps w 2 x y = kernelSum ps w 0 x y"
    by (rule kernelSum_gray[OF assms]) simp
  show ?thesis
    unfolding sharpPixel_def sharpChannel_def k1 k2
    by (simp add: grayByte_def toUint8Clamp_le)
qed

lemma sharpenText_gray:
  assumes gray: "list_all grayByte (data img)" and len: "length (data img) = width img * height img"
  shows "list_all grayByte (data (sharpenText img))"
proof -
  define out where "out = fold (\<lambda>y newData.
              fold (\<lambda>x newData. newData[y * width img + x := sharpPixel (data img) (width img) x y])
                [1..<width img - 1] newData)
         [1..<height img - 1] (data img)"
  have outlen: "length out = length (data img)"
    unfolding out_def by (rule fold_update_grid_length)
  have "grayByte (out ! p)" if p: "p < length (data img)" for p
  proof -
    define inside where "inside \<longleftrightarrow>
      p div width img \<in> set [1..<height img - 1] \<and> p mod width img \<in> set [1..<width img - 1]"
    have nth: "out ! p =
        (if inside then sharpPixel (data img) (width img) (p mod width img) (p div width img)
         else data img ! p)"
      unfolding out_def inside_def by (rule fold_update_grid_nth) (use p in auto)
    show ?thesis
    proof (cases inside)
      case True
      then have "1 \<le> p mod width img" "p mod width img + 1 < width img"
        "1 \<le> p div width img" "p div width img + 1 < height img"
        unfolding inside_def by auto
      then have "grayByte (sharpPixel (data img) (width img) (p mod width img) (p div width img))"
        using gray len by (intro sharpPixel_gray[where h = "height img"])
      then show ?thesis using nth True by simp
    next
      case False
      have "grayByte (data img ! p)" using gray p by (simp add: list_all_length)
      then show ?thesis using nth False by simp
    qed
  qed
  then have "list_all grayByte out" by (simp add: list_all_length outlen)
  then show ?thesis by (simp add: sharpenText_def out_def)
qed

lemma textBuffer_gray:
  assumes "length (data img) = width img * height img"
  shows "list_all grayByte (data (textBuffer rnd img))"
  unfolding textBuffer_def Let_def
  by (rule sharpenText_gray)
     (simp_all add: removeColorNoise_gray removeColorNoise_shape increaseContrast_shape assms)

lemma textBuffer_histogram:
  assumes "accurateRounding rnd" "length (data img) = width img * height img"
  shows "adaptiveHistogram (textBuffer rnd img) = buildHistogram (lumaWith rnd) (data (textBuffer rnd img))"
  unfolding adaptiveHistogram_def
proof (rule buildHistogram_cong)
  fix p assume "p \<in> set (data (textBuffer rnd img))"
  then have "grayByte p" using textBuffer_gray[OF assms(2), of rnd] by (simp add: list_all_iff)
  then show "roundedMeanGray p = lumaWith rnd p" by (rule grayByte_agree[OF assms(1)])
qed

text \<open>
  Claim C5. Both histograms are filled by \<open>histogram[gray]++\<close>, once per pixel, so bin \<open>k\<close>
  counts the pixels whose gray value is \<open>k\<close>. In \<open>binarize\<close> (the Otsu path) the gray value
  is the luma \<open>Math.round(0.299 * R + 0.587 * G + 0.114 * B)\<close>, taken as the code computes
  it. \<open>calculateAdaptiveThreshold\<close> (the bimodal-peak path, and its Otsu fallback) computes
  \<open>Math.round((R + G + B) / 3)\<close>; it is only called on the buffer that
  \<open>enhanceTextRegion\<close> has passed through \<open>removeColorNoise\<close> and \<open>sharpenText\<close>, where every
  pixel has \<open>R = G = B\<close>, and there that value is the luma of the pixel. So its histogram,
  too, is the histogram of the lumas of the buffer it is built from. The image is any
  valid \<open>ImageData\<close>, and the rounding any accurate one.
\<close>

theorem histogram_gray_values:
  assumes "accurateRounding rnd" "wellFormed img" "k < 256"
  shows "binarizeHistogramWith rnd img ! k
           = length (filter (\<lambda>p. lumaWith rnd p = int k) (data img)) \<and>
         enhanceTextRegion rnd img = binarizeForText (textBuffer rnd img) \<and>
         adaptiveHistogram (textBuffer rnd img)
           = buildHistogram (lumaWith rnd) (data (textBuffer rnd img)) \<and>
         adaptiveHistogram (textBuffer rnd img) ! k
           = length (filter (\<lambda>p. lumaWith rnd p = int k) (data (textBuffer rnd img)))"
proof -
  have len: "length (data img) = width img * height img" using assms(2) by (simp add: wellFormed_def)
  have h: "adaptiveHistogram (textBuffer rnd img)
             = buildHistogram (lumaWith rnd) (data (textBuffer rnd img))"
    using assms(1) len by (rule textBuffer_histogram)
  have b: "binarizeHistogramWith rnd img ! k
           = length (filter (\<lambda>p. lumaWith rnd p = int k) (data img))"
    unfolding binarizeHistogramWith_def using assms(3) by (rule buildHistogram_nth)
  have a: "adaptiveHistogram (textBuffer rnd img) ! k
           = length (filter (\<lambda>p. lumaWith rnd p = int k) (data (textBuffer rnd img)))"
    unfolding h using assms(3) by (rule buildHistogram_nth)
  show ?thesis using b h a by (simp add: enhanceTextRegion_def)
qed

text \<open>
  An instance: three by three pixels, white around a red centre, without rounding. After
  \<open>removeColorNoise\<close> the centre holds 76, after \<open>sharpenText\<close> 0 (the kernel sum is
  \<open>6 * 76 - 4 * 255\<close>).
\<close>

lemma accurateRounding_exact: "accurateRounding (\<lambda>v. v)"
  by (simp add: accurateRounding_def)

lemma lumaWith_exact_white: "lumaWith (\<lambda>v. v) (255, 255, 255, 255) = 255"
  using lumaWith_gray[OF accurateRounding_exact, of 255 255] by simp

lemma lumaWith_exact_black: "lumaWith (\<lambda>v. v) (0, 0, 0, 255) = 0"
  using lumaWith_gray[OF accurateRounding_exact, of 0 255] by simp

lemma lumaWith_exact_red: "lumaWith (\<lambda>v. v) (255, 0, 0, 255) = 76"
  by (simp add: mathRound_def)

lemma dot_contrast: "increaseContrast dotImage 2 = dotImage"
proof -
  have c: "contrastChannel 2 255 = 255" "contrastChannel 2 0 = 0"
    by (simp_all add: contrastChannel_def toUint8Clamp_def)
  show ?thesis by (simp add: increaseContrast_def dotImage_def c)
qed

lemma dot_gray:
  "removeColorNoise (\<lambda>v. v) dotImage = \<lparr> width = 3, height = 3,
       data = [(255, 255, 255, 255), (255, 255, 255, 255), (255, 255, 255, 255),
               (255, 255, 255, 255), (76, 76, 76, 255), (255, 255, 255, 255),
               (255, 255, 255, 255), (255, 255, 255, 255), (255, 255, 255, 255)] \<rparr>"
proof -
  have t: "toUint8Clamp 255 = 255" "toUint8Clamp 76 = 76" by (simp_all add: toUint8Clamp_def)
  show ?thesis
    by (simp add: removeColorNoise_def dotImage_def lumaWith_exact_white lumaWith_exact_red t
        del: lumaWith.simps)
qed

lemma dot_kernelSum:
  "kernelSum [(255, 255, 255, 255), (255, 255, 255, 255), (255, 255, 255, 255),
               (255, 255, 255, 255), (76, 76, 76, 255), (255, 255, 255, 255),
               (255, 255, 255, 255), (255, 255, 255, 255), (255, 255, 255, 255)] 3 0 1 1 = - 564"
  "kernelSum [(255, 255, 255, 255), (255, 255, 255, 255), (255, 255, 255, 255),
               (255, 255, 255, 255), (76, 76, 76, 255), (255, 255, 255, 255),
               (255, 255, 255, 255), (255, 255, 255, 255), (255, 255, 255, 255)] 3 1 1 1 = - 564"
  "kernelSum [(255, 255, 255, 255), (255, 255, 255, 255), (255, 255, 255, 255),
               (255, 255, 255, 255), (76, 76, 76, 255), (255, 255, 255, 255),
               (255, 255, 255, 255), (255, 255, 255, 255), (255, 255, 255, 255)] 3 2 1 1 = - 564"
  by (simp_all add: kernelSum_def upt_3 sharpenKernel_def)

lemma dot_textBuffer:
  "data (textBuffer (\<lambda>v. v) dotImage) =
     [(255, 255, 255, 255), (255, 255, 255, 255), (255, 255, 255, 255),
      (255, 255, 255, 255), (0, 0, 0, 255), (255, 255, 255, 255),
      (255, 255, 255, 255), (255, 255, 255, 255), (255, 255, 255, 255)]"
proof -
  have t: "toUint8Clamp 0 = 0" by (simp add: toUint8Clamp_def)
  have u: "[1..<2] = [1::nat]" by (simp add: upt_rec)
  show ?thesis
    unfolding textBuffer_def Let_def dot_contrast dot_gray
    using u dot_kernelSum
    by (simp add: sharpenText_def sharpPixel_def sharpChannel_def t)
qed

theorem histogram_gray_values_witness:
  "accurateRounding (\<lambda>v. v) \<and> wellFormed dotImage \<and> (0::nat) < 256 \<and>
   binarizeHistogramWith (\<lambda>v. v) dotImage ! 0 = 0 \<and>
   adaptiveHistogram (textBuffer (\<lambda>v. v) dotImage) ! 0 = 1"
proof -
  have wf: "wellFormed dotImage" by (simp add: wellFormed_def dotImage_def)
  have k: "(0::nat) < 256" by simp
  have d: "data dotImage = [(255, 255, 255, 255), (255, 255, 255, 255), (255, 255, 255, 255),
               (255, 255, 255, 255), (255, 0, 0, 255), (255, 255, 255, 255),
               (255, 255, 255, 255), (255, 255, 255, 255), (255, 255, 255, 255)]"
    by (simp add: dotImage_def)
  note th = histogram_gray_values[OF accurateRounding_exact wf k]
  have b: "binarizeHistogramWith (\<lambda>v. v) dotImage ! 0 = 0"
    using th[THEN conjunct1]
    by (simp add: d lumaWith_exact_white lumaWith_exact_red del: lumaWith.simps)
  have a: "adaptiveHistogram (textBuffer (\<lambda>v. v) dotImage) ! 0 = 1"
    using th[THEN conjunct2, THEN conjunct2, THEN conjunct2]
    by (simp add: dot_textBuffer lumaWith_exact_white lumaWith_exact_black del: lumaWith.simps)
  show ?thesis using accurateRounding_exact wf a b by simp
qed

section \<open>The scanners on the test image\<close>

lemma memeImage_width: "width memeImage = 41"
  by (simp add: memeImage_def)

lemma memeImage_height: "height memeImage = 31"
  by (simp add: memeImage_def)

lemma memeData_length: "length (data memeImage) = 1271"
  by (simp add: memeImage_def)

lemma memeData_nth: "p < 1271 \<Longrightarrow> data memeImage ! p = memePixel p"
  by (simp add: memeImage_def del: upt_rec_numeral)

lemma memeImage_wellFormed: "wellFormed memeImage"
proof -
  have "list_all (\<lambda>(r, g, b, a). r \<le> 255 \<and> g \<le> 255 \<and> b \<le> 255 \<and> a \<le> 255) (data memeImage)"
    unfolding memeImage_def list_all_iff by (auto simp: memePixel_def Let_def simp del: upt_rec_numeral)
  then show ?thesis by (simp add: wellFormed_def memeImage_width memeImage_height memeData_length)
qed

lemma memePixel_at:
  assumes "x < 41" "y < 31"
  shows "data memeImage ! (y * 41 + x)
           = (if (x = 0 \<and> y = 0) \<or> (30 \<le> x \<and> odd (x div 2))
              then (0, 0, 0, 255) else (255, 255, 255, 255))"
proof -
  have "y * 41 + x < 1271" using assms by simp
  then show ?thesis using assms by (simp add: memeData_nth memePixel_def)
qed

lemma memeGray:
  assumes "x < 41" "y < 31"
  shows "grayAt (data memeImage) 41 x y
           = (if (x = 0 \<and> y = 0) \<or> (30 \<le> x \<and> odd (x div 2)) then 0 else 255)"
  unfolding grayAt_def memePixel_at[OF assms] by simp

lemma meme_edge_calm:
  assumes "1 \<le> x" "x \<le> 28" "1 \<le> y" "y \<le> 29" "\<not> (x = 1 \<and> y = 1)"
  shows "edgePixel (data memeImage) 41 x y = (0, 0, 0, 255)"
proof -
  have g: "grayAt (data memeImage) 41 x' y' = 255"
    if "x' \<le> 29" "y' \<le> 30" "\<not> (x' = 0 \<and> y' = 0)" for x' y'
    using that by (simp add: memeGray)
  have gx: "gradient (data memeImage) 41 sobelX x y = 0"
    unfolding gradient_sobelX using assms by (simp add: g)
  have gy: "gradient (data memeImage) 41 sobelY x y = 0"
    unfolding gradient_sobelY using assms by (simp add: g)
  show ?thesis unfolding edgePixel_def gx gy Let_def by (simp add: toUint8Clamp_def)
qed

lemma meme_edge_corner: "edgePixel (data memeImage) 41 1 1 = (255, 255, 255, 255)"
proof -
  have gx: "gradient (data memeImage) 41 sobelX 1 1 = 255"
    unfolding gradient_sobelX by (simp add: memeGray)
  have gy: "gradient (data memeImage) 41 sobelY 1 1 = 255"
    unfolding gradient_sobelY by (simp add: memeGray)
  show ?thesis unfolding edgePixel_def gx gy Let_def by (simp add: edgeByte_high)
qed

lemma meme_edge_stripes:
  assumes "29 \<le> x" "x \<le> 39" "1 \<le> y" "y \<le> 29"
  shows "edgePixel (data memeImage) 41 x y = (255, 255, 255, 255)"
proof -
  have col: "grayAt (data memeImage) 41 x' y' = (if 30 \<le> x' \<and> odd (x' div 2) then 0 else 255)"
    if "28 \<le> x'" "x' \<le> 40" "y' \<le> 30" for x' y'
    using that by (simp add: memeGray)
  have gy: "gradient (data memeImage) 41 sobelY x y = 0"
    unfolding gradient_sobelY using assms by (simp add: col)
  have "x = 29 \<or> x = 30 \<or> x = 31 \<or> x = 32 \<or> x = 33 \<or> x = 34 \<or> x = 35 \<or> x = 36
        \<or> x = 37 \<or> x = 38 \<or> x = 39"
    using assms by presburger
  then have gx: "gradient (data memeImage) 41 sobelX x y = 1020
                 \<or> gradient (data memeImage) 41 sobelX x y = - 1020"
    unfolding gradient_sobelX using assms(3,4) by (elim disjE) (simp_all add: col)
  then have "gradient (data memeImage) 41 sobelX x y * gradient (data memeImage) 41 sobelX x y
               = 1040400"
    by auto
  then show ?thesis unfolding edgePixel_def gy Let_def by (simp add: edgeByte_high toUint8Clamp_def)
qed


text \<open>Edge scores of the two blocks of the edge scanner.\<close>

lemma meme_sobel_at:
  assumes "x < 41" "y < 31"
  shows "data (sobelEdgeDetection memeImage) ! (y * 41 + x)
           = (if 1 \<le> y \<and> y < 30 \<and> 1 \<le> x \<and> x < 40
              then edgePixel (data memeImage) 41 x y else (0, 0, 0, 0))"
proof -
  have p: "y * 41 + x < length (data memeImage)" using assms by (simp add: memeData_length)
  have "(y * 41 + x) div 41 = y" "(y * 41 + x) mod 41 = x" using assms by simp_all
  then show ?thesis
    using sobel_nth[OF p] by (simp add: memeImage_width memeImage_height)
qed

lemma meme_sobel_corner: "data (sobelEdgeDetection memeImage) ! 42 = (255, 255, 255, 255)"
  using meme_sobel_at[of 1 1] meme_edge_corner by simp

lemma meme_block_0_0_row:
  assumes "dy < 20"
  shows "(\<Sum>dx = 0..<20. case data (sobelEdgeDetection memeImage) ! ((0 + dy) * 41 + (0 + dx))
            of (r, g, b, a) \<Rightarrow> r) = (if dy = 1 then 255 else (0::nat))"
proof -
  have el: "(case data (sobelEdgeDetection memeImage) ! ((0 + dy) * 41 + (0 + dx))
               of (r, g, b, a) \<Rightarrow> r) = (if dx = 1 \<and> dy = 1 then 255 else 0)"
    if "dx < 20" for dx
  proof (cases "1 \<le> dy \<and> 1 \<le> dx")
    case False
    then show ?thesis using that assms by (auto simp: meme_sobel_at)
  next
    case True
    show ?thesis
    proof (cases "dx = 1 \<and> dy = 1")
      case True
      then show ?thesis using meme_sobel_corner by simp
    next
      case False
      then have "edgePixel (data memeImage) 41 dx dy = (0, 0, 0, 255)"
        using True that assms by (intro meme_edge_calm) auto
      then show ?thesis using True False that assms by (simp add: meme_sobel_at)
    qed
  qed
  have "(\<Sum>dx = 0..<20. case data (sobelEdgeDetection memeImage) ! ((0 + dy) * 41 + (0 + dx))
            of (r, g, b, a) \<Rightarrow> r)
        = (\<Sum>dx = (0::nat)..<20. if dx = 1 \<and> dy = 1 then 255 else (0::nat))"
  proof (intro sum.cong refl)
    fix dx :: nat
    assume "dx \<in> {0..<20}"
    then have "dx < 20" by simp
    then show "(case data (sobelEdgeDetection memeImage) ! ((0 + dy) * 41 + (0 + dx))
                  of (r, g, b, a) \<Rightarrow> r) = (if dx = 1 \<and> dy = 1 then 255 else 0)"
      by (rule el)
  qed
  also have "\<dots> = (if dy = 1 then (\<Sum>dx = (0::nat)..<20. if dx = 1 then 255 else (0::nat)) else 0)"
    by simp
  also have "\<dots> = (if dy = 1 then 255 else 0)"
    using sum_at[of 1 20 255] by simp
  finally show ?thesis .
qed

lemma meme_block_20_0_row:
  assumes "dy < 20"
  shows "(\<Sum>dx = 0..<20. case data (sobelEdgeDetection memeImage) ! ((0 + dy) * 41 + (20 + dx))
            of (r, g, b, a) \<Rightarrow> r) = (if 1 \<le> dy then 2805 else (0::nat))"
proof -
  have el: "(case data (sobelEdgeDetection memeImage) ! ((0 + dy) * 41 + (20 + dx))
               of (r, g, b, a) \<Rightarrow> r) = (if 1 \<le> dy \<and> 9 \<le> dx then 255 else 0)"
    if "dx < 20" for dx
  proof (cases "1 \<le> dy")
    case False
    then show ?thesis using that assms by (simp add: meme_sobel_at)
  next
    case True
    show ?thesis
    proof (cases "9 \<le> dx")
      case True
      then have "edgePixel (data memeImage) 41 (20 + dx) dy = (255, 255, 255, 255)"
        using \<open>1 \<le> dy\<close> that assms by (intro meme_edge_stripes) auto
      then show ?thesis using True \<open>1 \<le> dy\<close> that assms by (simp add: meme_sobel_at)
    next
      case False
      then have "edgePixel (data memeImage) 41 (20 + dx) dy = (0, 0, 0, 255)"
        using \<open>1 \<le> dy\<close> that assms by (intro meme_edge_calm) auto
      then show ?thesis using False \<open>1 \<le> dy\<close> that assms by (simp add: meme_sobel_at)
    qed
  qed
  have "(\<Sum>dx = 0..<20. case data (sobelEdgeDetection memeImage) ! ((0 + dy) * 41 + (20 + dx))
            of (r, g, b, a) \<Rightarrow> r)
        = (\<Sum>dx = (0::nat)..<20. if 1 \<le> dy \<and> 9 \<le> dx then 255 else (0::nat))"
  proof (intro sum.cong refl)
    fix dx :: nat
    assume "dx \<in> {0..<20}"
    then have "dx < 20" by simp
    then show "(case data (sobelEdgeDetection memeImage) ! ((0 + dy) * 41 + (20 + dx))
                  of (r, g, b, a) \<Rightarrow> r) = (if 1 \<le> dy \<and> 9 \<le> dx then 255 else 0)"
      by (rule el)
  qed
  also have "\<dots> = (if 1 \<le> dy then (\<Sum>dx = (0::nat)..<20. if 9 \<le> dx then 255 else (0::nat)) else 0)"
    by simp
  also have "\<dots> = (if 1 \<le> dy then 2805 else 0)"
    using sum_from[of 9 20 255] by simp
  finally show ?thesis .
qed

lemma meme_edgeScore_0_0:
  "calculateEdgeScore (sobelEdgeDetection memeImage) 0 0 20 41 = 1 / 400"
proof -
  have a: "0 + 20 \<le> (41::nat)" by simp
  have b: "(0 + 20) * 41 \<le> length (data (sobelEdgeDetection memeImage))"
    by (simp add: sobel_length memeData_length)
  have "(\<Sum>(r, g, b, a)\<leftarrow>blockPixels (data (sobelEdgeDetection memeImage)) 41 0 0 20. r)
      = (\<Sum>dy = 0..<20. \<Sum>dx = 0..<20.
           case data (sobelEdgeDetection memeImage) ! ((0 + dy) * 41 + (0 + dx)) of (r, g, b, a) \<Rightarrow> r)"
    by (rule blockPixels_sum[OF a b])
  also have "\<dots> = (\<Sum>dy = (0::nat)..<20. if dy = 1 then 255 else (0::nat))"
  proof (intro sum.cong refl)
    fix dy :: nat
    assume "dy \<in> {0..<20}"
    then have "dy < 20" by simp
    then show "(\<Sum>dx = 0..<20. case data (sobelEdgeDetection memeImage) ! ((0 + dy) * 41 + (0 + dx))
                  of (r, g, b, a) \<Rightarrow> r) = (if dy = 1 then 255 else 0)"
      by (rule meme_block_0_0_row)
  qed
  also have "\<dots> = 255" using sum_at[of 1 20 255] by simp
  finally have s: "(\<Sum>(r, g, b, a)\<leftarrow>blockPixels (data (sobelEdgeDetection memeImage)) 41 0 0 20. r) = 255" .
  have l: "length (blockPixels (data (sobelEdgeDetection memeImage)) 41 0 0 20) = 400"
    using blockPixels_length[OF a b] by simp
  show ?thesis unfolding calculateEdgeScore_def Let_def s l by simp
qed

lemma meme_edgeScore_20_0:
  "calculateEdgeScore (sobelEdgeDetection memeImage) 20 0 20 41 = 209 / 400"
proof -
  have a: "20 + 20 \<le> (41::nat)" by simp
  have b: "(0 + 20) * 41 \<le> length (data (sobelEdgeDetection memeImage))"
    by (simp add: sobel_length memeData_length)
  have "(\<Sum>(r, g, b, a)\<leftarrow>blockPixels (data (sobelEdgeDetection memeImage)) 41 20 0 20. r)
      = (\<Sum>dy = 0..<20. \<Sum>dx = 0..<20.
           case data (sobelEdgeDetection memeImage) ! ((0 + dy) * 41 + (20 + dx)) of (r, g, b, a) \<Rightarrow> r)"
    by (rule blockPixels_sum[OF a b])
  also have "\<dots> = (\<Sum>dy = (0::nat)..<20. if 1 \<le> dy then 2805 else (0::nat))"
  proof (intro sum.cong refl)
    fix dy :: nat
    assume "dy \<in> {0..<20}"
    then have "dy < 20" by simp
    then show "(\<Sum>dx = 0..<20. case data (sobelEdgeDetection memeImage) ! ((0 + dy) * 41 + (20 + dx))
                  of (r, g, b, a) \<Rightarrow> r) = (if 1 \<le> dy then 2805 else 0)"
      by (rule meme_block_20_0_row)
  qed
  also have "\<dots> = 53295" using sum_from[of 1 20 2805] by simp
  finally have s: "(\<Sum>(r, g, b, a)\<leftarrow>blockPixels (data (sobelEdgeDetection memeImage)) 41 20 0 20. r) = 53295" .
  have l: "length (blockPixels (data (sobelEdgeDetection memeImage)) 41 20 0 20) = 400"
    using blockPixels_length[OF a b] by simp
  show ?thesis unfolding calculateEdgeScore_def Let_def s l by simp
qed

lemma blockStarts_41_20: "blockStarts 0 41 20 = [0, 20]"
  by (simp add: blockStarts.simps)

lemma blockStarts_31_20: "blockStarts 0 31 20 = [0]"
  by (simp add: blockStarts.simps)

lemma meme_edgeCandidates: "edgeCandidates memeImage = [blockRegion 20 0 20 (209 / 400)]"
  unfolding edgeCandidates_def Let_def memeImage_width memeImage_height
    blockStarts_41_20 blockStarts_31_20
  by (simp add: meme_edgeScore_0_0 meme_edgeScore_20_0)


text \<open>The colour block at the origin: one black pixel, then 899 white ones.\<close>

lemma meme_color_block:
  "map pixelColor (blockPixels (data memeImage) 41 0 0 30) = (0, 0, 0) # replicate 899 (255, 255, 255)"
proof -
  have a: "0 + 30 \<le> (41::nat)" by simp
  have b: "(0 + 30) * 41 \<le> length (data memeImage)" by (simp add: memeData_length)
  have el: "pixelColor (data memeImage ! ((0 + i div 30) * 41 + (0 + i mod 30)))
              = (if i = 0 then (0, 0, 0) else (255, 255, 255))" if "i < 900" for i
  proof -
    have x: "i mod 30 < 41" by (rule less_trans[OF mod_less_divisor]) simp_all
    have y: "i div 30 < 31" using that by simp
    have z: "(i mod 30 = 0 \<and> i div 30 = 0) \<longleftrightarrow> i = 0"
      by (metis div_mult_mod_eq add_0 mult_0_right mod_0 div_0)
    have n: "\<not> 30 \<le> i mod 30" by simp
    show ?thesis using memePixel_at[OF x y] z n by simp
  qed
  show ?thesis
  proof (rule nth_equalityI)
    show "length (map pixelColor (blockPixels (data memeImage) 41 0 0 30))
            = length ((0, 0, 0) # replicate 899 (255, 255, 255))"
      using blockPixels_length[OF a b] by simp
  next
    fix i
    assume "i < length (map pixelColor (blockPixels (data memeImage) 41 0 0 30))"
    then have i: "i < 900" using blockPixels_length[OF a b] by simp
    have "map pixelColor (blockPixels (data memeImage) 41 0 0 30) ! i
            = pixelColor (data memeImage ! ((0 + i div 30) * 41 + (0 + i mod 30)))"
      unfolding blockPixels_flat[OF a b] using i by (simp del: upt_rec_numeral)
    also have "\<dots> = (if i = 0 then (0, 0, 0) else (255, 255, 255))" by (rule el[OF i])
    also have "\<dots> = ((0, 0, 0) # replicate 899 (255, 255, 255)) ! i"
      using i by (simp add: nth_Cons')
    finally show "map pixelColor (blockPixels (data memeImage) 41 0 0 30) ! i
                    = ((0, 0, 0) # replicate 899 (255, 255, 255)) ! i" .
  qed
qed

lemma sqrt_less_50: "sqrt v < 50 \<longleftrightarrow> v < 2500"
proof -
  have "sqrt v < sqrt (50\<^sup>2) \<longleftrightarrow> v < 50\<^sup>2" by (rule real_sqrt_less_iff)
  then show ?thesis by simp
qed

lemma sqrt_greater_100: "100 < sqrt v \<longleftrightarrow> 10000 < v"
proof -
  have "sqrt (100\<^sup>2) < sqrt v \<longleftrightarrow> 100\<^sup>2 < v" by (rule real_sqrt_less_iff)
  then show ?thesis by simp
qed

lemma meme_color_variance:
  "calculateColorVariance ((0, 0, 0) # replicate 899 (255, 255, 255)) < 50"
  by (simp add: calculateColorVariance_def Let_def sqrt_less_50 power2_eq_square sum_list_replicate)


lemma countColor_again:
  "fold (\<lambda>c m. countColor m (quantize32 c)) (replicate n c) [(k0, c0), (quantize32 c, j)]
     = [(k0, c0), (quantize32 c, j + n)]"
  if "k0 \<noteq> quantize32 c"
  using that by (induction n arbitrary: j) simp_all

lemma countColor_second:
  assumes "k0 \<noteq> quantize32 c"
  shows "fold (\<lambda>c m. countColor m (quantize32 c)) (replicate (Suc n) c) [(k0, c0)]
           = [(k0, c0), (quantize32 c, Suc n)]"
  using countColor_again[OF assms, of n c0 1] assms by simp

lemma quantize32_black: "quantize32 (0, 0, 0) = (0, 0, 0)"
  by (simp add: mathRound_def)

lemma quantize32_white: "quantize32 (255, 255, 255) = (256, 256, 256)"
  by (simp add: mathRound_def)

lemma meme_dominant_colors:
  "findDominantColors ((0, 0, 0) # replicate 899 (255, 255, 255)) 3
     = [((256, 256, 256), 899), ((0, 0, 0), 1)]"
proof -
  have ne: "((0, 0, 0)::rgb) \<noteq> quantize32 (255, 255, 255)" unfolding quantize32_white by simp
  have "fold (\<lambda>c m. countColor m (quantize32 c)) ((0, 0, 0) # replicate 899 (255, 255, 255)) []
      = fold (\<lambda>c m. countColor m (quantize32 c)) (replicate (Suc 898) (255, 255, 255)) [((0, 0, 0), 1)]"
    by (simp add: quantize32_black del: quantize32.simps replicate_Suc)
  also have "\<dots> = [((0, 0, 0), 1), (quantize32 (255, 255, 255), Suc 898)]"
    by (rule countColor_second[OF ne])
  finally have "fold (\<lambda>c m. countColor m (quantize32 c)) ((0, 0, 0) # replicate 899 (255, 255, 255)) []
      = [((0, 0, 0), 1), ((256, 256, 256), 899)]"
    by (simp add: quantize32_white del: quantize32.simps)
  then show ?thesis by (simp add: findDominantColors_def del: quantize32.simps)
qed

lemma meme_color_analysis: "analyzeColorBlock (data memeImage) 0 0 30 41 = (True, 1)"
  unfolding analyzeColorBlock_def Let_def meme_color_block meme_dominant_colors
  using meme_color_variance by (simp add: hasHighContrast_def sqrt_greater_100)

lemma blockStarts_41_30: "blockStarts 0 41 30 = [0]"
  by (simp add: blockStarts.simps)

lemma blockStarts_31_30: "blockStarts 0 31 30 = [0]"
  by (simp add: blockStarts.simps)

lemma meme_colorCandidates: "colorCandidates memeImage = [blockRegion 0 0 30 1]"
  unfolding colorCandidates_def memeImage_width memeImage_height
    blockStarts_41_30 blockStarts_31_30
  by (simp add: meme_color_analysis)

text \<open>
  The stroke score is the dark ratio when that lies in \<open>(0.1, 0.4)\<close> and 0 otherwise, so
  it never exceeds 0.4 and the test \<open>strokeScore > 0.4\<close> of \<open>detectTextByStroke\<close> never
  holds.
\<close>

lemma calculateStrokeScore_le: "calculateStrokeScore img x y n \<le> 0.4"
  by (simp add: calculateStrokeScore_def Let_def)

lemma detectTextByStroke_empty: "detectTextByStroke img = []"
proof -
  have "\<not> calculateStrokeScore img x y 25 > 0.4" for x y
    using calculateStrokeScore_le[of img x y 25] by simp
  then show ?thesis by (simp add: detectTextByStroke_def Let_def)
qed

section \<open>What the final merger receives\<close>

lemma blockRegion_region: "blockRegion x y n s = region (int x) (int y) (int n) (int n) s"
  by (simp add: blockRegion_def region_def)

lemma meme_detectTextByEdges: "detectTextByEdges memeImage = []"
  unfolding detectTextByEdges_def meme_edgeCandidates blockRegion_region
  by (simp add: mergeNearbyRegions_def region_largeEnough)

lemma meme_detectTextByColor: "detectTextByColor memeImage = [region 0 0 30 30 1]"
  unfolding detectTextByColor_def meme_colorCandidates blockRegion_region
  by (simp add: mergeNearbyRegions_def region_largeEnough)

lemma meme_mergerInput: "mergerInput memeImage = [region 0 0 30 30 1]"
  by (simp add: mergerInput_def meme_detectTextByEdges meme_detectTextByColor
      detectTextByStroke_empty)

lemma meme_detectRegions: "detectRegions memeImage defaultOptions = [region 0 0 30 30 1]"
  unfolding detectRegions_def mergeOverlappingRegions_def meme_mergerInput
  by (simp add: defaultOptions_def mergeNearbyRegions_def region_largeEnough)

lemma meme_raw_candidates:
  "edgeCandidates memeImage @ colorCandidates memeImage @ detectTextByStroke memeImage
     = [region 20 0 20 20 (209 / 400), region 0 0 30 30 1]"
  by (simp add: meme_edgeCandidates meme_colorCandidates detectTextByStroke_empty
      blockRegion_region)

lemma meme_raw_merged:
  "mergeNearbyRegions
     (edgeCandidates memeImage @ colorCandidates memeImage @ detectTextByStroke memeImage)
     = [region 0 0 40 30 1]"
  unfolding meme_raw_candidates
  by (simp add: mergeNearbyRegions_def region_near region_expand region_largeEnough)

text \<open>
  Claim C3, as the code has it. \<open>detectTextByEdges\<close> and \<open>detectTextByColor\<close> each return
  their block candidates already merged and size-filtered; \<open>detectTextByStroke\<close> returns
  its candidates as they are. The list handed to the final merger is the concatenation
  of these three results, in this order, and the detection result is the merger applied
  to it.
\<close>

theorem scanners_merge_before_concatenation:
  "mergerInput img
     = mergeNearbyRegions (edgeCandidates img) @ mergeNearbyRegions (colorCandidates img)
         @ detectTextByStroke img \<and>
   (useTextDetection options \<longrightarrow>
      detectRegions img options
        = mergeNearbyRegions
            (mergeNearbyRegions (edgeCandidates img) @ mergeNearbyRegions (colorCandidates img)
               @ detectTextByStroke img)) \<and>
   regions (detectAndExtractText img options) = detectRegions img options"
  by (simp add: mergerInput_def detectTextByEdges_def detectTextByColor_def detectRegions_def
      mergeOverlappingRegions_def detectAndExtractText_def Let_def)

theorem scanners_merge_before_concatenation_witness:
  "useTextDetection defaultOptions \<and>
   mergeNearbyRegions (edgeCandidates memeImage) = [] \<and>
   mergeNearbyRegions (colorCandidates memeImage) = [region 0 0 30 30 1] \<and>
   mergerInput memeImage = [region 0 0 30 30 1] \<and>
   regions (detectAndExtractText memeImage defaultOptions) = [region 0 0 30 30 1]"
proof -
  have u: "useTextDetection defaultOptions" by (simp add: defaultOptions_def)
  have e: "mergeNearbyRegions (edgeCandidates memeImage) = []"
    using meme_detectTextByEdges by (simp add: detectTextByEdges_def)
  have c: "mergeNearbyRegions (colorCandidates memeImage) = [region 0 0 30 30 1]"
    using meme_detectTextByColor by (simp add: detectTextByColor_def)
  have m: "mergeNearbyRegions [region 0 0 30 30 1] = [region 0 0 30 30 1]"
    by (simp add: mergeNearbyRegions_def region_largeEnough)
  show ?thesis
    using u scanners_merge_before_concatenation[of memeImage defaultOptions]
    by (simp add: e c m detectTextByStroke_empty)
qed

text \<open>
  Claim C3 as stated fails on the test image. The edge scanner finds one block, at
  \<open>(20, 0)\<close>, which its own merge step drops for being only 20 wide; the colour scanner
  finds the block at the origin. The merger therefore receives the colour block alone
  and returns it, 30 by 30. Merging the raw candidates once would join the two blocks
  into a region of 40 by 30.
\<close>

theorem raw_concatenation_counterexample:
  "wellFormed memeImage \<and> useTextDetection defaultOptions \<and>
   mergerInput memeImage
     \<noteq> edgeCandidates memeImage @ colorCandidates memeImage @ detectTextByStroke memeImage \<and>
   regions (detectAndExtractText memeImage defaultOptions)
     \<noteq> mergeNearbyRegions
         (edgeCandidates memeImage @ colorCandidates memeImage @ detectTextByStroke memeImage)"
proof -
  have u: "useTextDetection defaultOptions" by (simp add: defaultOptions_def)
  have a: "mergerInput memeImage
     \<noteq> edgeCandidates memeImage @ colorCandidates memeImage @ detectTextByStroke memeImage"
    unfolding meme_raw_candidates meme_mergerInput by simp
  have "regions (detectAndExtractText memeImage defaultOptions) = [region 0 0 30 30 1]"
    by (simp add: detectAndExtractText_def Let_def meme_detectRegions)
  then have b: "regions (detectAndExtractText memeImage defaultOptions)
     \<noteq> mergeNearbyRegions
         (edgeCandidates memeImage @ colorCandidates memeImage @ detectTextByStroke memeImage)"
    unfolding meme_raw_merged by (simp add: region_eq)
  show ?thesis using memeImage_wellFormed u a b by simp
qed

section \<open>Size filter of the edge scanner\<close>

lemma edgeCandidates_width:
  assumes "c \<in> set (edgeCandidates img)"
  shows "region_width c = 20"
  using assms by (auto simp: edgeCandidates_def Let_def blockRegion_def split: if_splits)

lemma absorbNearby_nothing:
  assumes "length (snd (absorbNearby c rs)) = length rs"
  shows "absorbNearby c rs = (c, rs)"
  using assms
proof (induction rs)
  case Nil
  show ?case by simp
next
  case (Cons r rs)
  show ?case
  proof (cases "regionDistance c r < 50")
    case True
    then have "length (snd (absorbNearby c (r # rs))) \<le> length rs"
      using absorbNearby_length[of "expandRegion c r" rs] by simp
    then show ?thesis using Cons.prems by simp
  next
    case False
    then have "length (snd (absorbNearby c rs)) = length rs"
      using Cons.prems by (simp add: case_prod_unfold)
    then have "absorbNearby c rs = (c, rs)" by (rule Cons.IH)
    then show ?thesis using False by simp
  qed
qed

text \<open>
  Claim C10. Every region the merge-and-filter step returns is wider than 20 and higher
  than 10, and \<open>detectTextByEdges\<close> is that step applied to the edge candidates. Every
  edge candidate is exactly 20 wide, so none of them is a region of the scanner's
  output; and a candidate that absorbs nothing from the regions after it (the inner
  loop leaves all of them) adds nothing to the output.
\<close>

theorem edge_regions_exceed_block:
  "(\<forall>r\<in>set (mergeNearbyRegions rs). 20 < region_width r \<and> 10 < region_height r) \<and>
   detectTextByEdges img = mergeNearbyRegions (edgeCandidates img) \<and>
   (\<forall>c\<in>set (edgeCandidates img).
      region_width c = 20 \<and> c \<notin> set (detectTextByEdges img) \<and>
      (\<forall>rest. length (snd (absorbNearby c rest)) = length rest
         \<longrightarrow> mergeNearbyRegions (c # rest) = mergeNearbyRegions rest))"
proof -
  have large: "20 < region_width r \<and> 10 < region_height r" if "r \<in> set (mergeNearbyRegions rs)" for r rs
    using mergeNearbyRegions_large[OF that] by (simp add: largeEnough_def)
  have cand: "region_width c = 20 \<and> c \<notin> set (detectTextByEdges img) \<and>
      (\<forall>rest. length (snd (absorbNearby c rest)) = length rest
         \<longrightarrow> mergeNearbyRegions (c # rest) = mergeNearbyRegions rest)"
    if c: "c \<in> set (edgeCandidates img)" for c
  proof -
    have w: "region_width c = 20" using c by (rule edgeCandidates_width)
    have "c \<notin> set (detectTextByEdges img)"
      using large[of c "edgeCandidates img"] w by (auto simp: detectTextByEdges_def)
    moreover have "mergeNearbyRegions (c # rest) = mergeNearbyRegions rest"
      if "length (snd (absorbNearby c rest)) = length rest" for rest
      using absorbNearby_nothing[OF that] w by (simp add: mergeNearbyRegions_def largeEnough_def)
    ultimately show ?thesis using w by blast
  qed
  show ?thesis using large cand by (simp add: detectTextByEdges_def)
qed

theorem edge_regions_exceed_block_witness:
  "region 0 0 40 20 0.9 \<in> set (mergeNearbyRegions separatedCandidates) \<and>
   20 < region_width (region 0 0 40 20 0.9) \<and> 10 < region_height (region 0 0 40 20 0.9) \<and>
   region 20 0 20 20 (209 / 400) \<in> set (edgeCandidates memeImage) \<and>
   region_width (region 20 0 20 20 (209 / 400)) = 20 \<and>
   region 20 0 20 20 (209 / 400) \<notin> set (detectTextByEdges memeImage) \<and>
   length (snd (absorbNearby (region 20 0 20 20 (209 / 400)) [])) = length ([]::TextRegion list) \<and>
   mergeNearbyRegions [region 20 0 20 20 (209 / 400)] = mergeNearbyRegions []"
proof -
  have r: "region 0 0 40 20 0.9 \<in> set (mergeNearbyRegions separatedCandidates)"
    unfolding separated_merge by simp
  have c: "region 20 0 20 20 (209 / 400) \<in> set (edgeCandidates memeImage)"
    unfolding meme_edgeCandidates blockRegion_region by simp
  have n: "length (snd (absorbNearby (region 20 0 20 20 (209 / 400)) [])) = length ([]::TextRegion list)"
    by simp
  note t = edge_regions_exceed_block[of separatedCandidates memeImage]
  from t have 1: "20 < region_width (region 0 0 40 20 0.9) \<and> 10 < region_height (region 0 0 40 20 0.9)"
    using r by blast
  from t have 2: "region_width (region 20 0 20 20 (209 / 400)) = 20 \<and>
      region 20 0 20 20 (209 / 400) \<notin> set (detectTextByEdges memeImage) \<and>
      (\<forall>rest. length (snd (absorbNearby (region 20 0 20 20 (209 / 400)) rest)) = length rest
         \<longrightarrow> mergeNearbyRegions (region 20 0 20 20 (209 / 400) # rest) = mergeNearbyRegions rest)"
    using c by blast
  from 2 n have 3: "mergeNearbyRegions [region 20 0 20 20 (209 / 400)] = mergeNearbyRegions []"
    by blast
  show ?thesis using r c n 1 2 3 by blast
qed

section \<open>The stroke scanner\<close>

lemma strokeImage_width: "width strokeImage = 26"
  by (simp add: strokeImage_def)

lemma strokeImage_height: "height strokeImage = 26"
  by (simp add: strokeImage_def)

lemma strokeData_length: "length (data strokeImage) = 676"
  by (simp add: strokeImage_def)

lemma strokeData_nth: "p < 676 \<Longrightarrow> data strokeImage ! p = strokePixel p"
  by (simp add: strokeImage_def del: upt_rec_numeral)

lemma strokeImage_wellFormed: "wellFormed strokeImage"
proof -
  have "list_all (\<lambda>(r, g, b, a). r \<le> 255 \<and> g \<le> 255 \<and> b \<le> 255 \<and> a \<le> 255) (data strokeImage)"
    unfolding strokeImage_def list_all_iff by (auto simp: strokePixel_def simp del: upt_rec_numeral)
  then show ?thesis
    by (simp add: wellFormed_def strokeImage_width strokeImage_height strokeData_length)
qed

lemma stroke_dark_at:
  assumes "dx < 25" "dy < 25"
  shows "meanGray (data strokeImage ! ((0 + dy) * 26 + (0 + dx))) < 128 \<longleftrightarrow> dy < 4"
proof -
  have p: "(0 + dy) * 26 + (0 + dx) < 676" using assms by simp
  have d: "((0 + dy) * 26 + (0 + dx)) div 26 = dy" using assms by simp
  show ?thesis unfolding strokeData_nth[OF p] strokePixel_def d by simp
qed

lemma stroke_dark_count:
  "length (filter (\<lambda>p. meanGray p < 128) (blockPixels (data strokeImage) 26 0 0 25)) = 100"
proof -
  have a: "0 + 25 \<le> (26::nat)" by simp
  have b: "(0 + 25) * 26 \<le> length (data strokeImage)" by (simp add: strokeData_length)
  have row: "(\<Sum>dx = 0..<25. if meanGray (data strokeImage ! ((0 + dy) * 26 + (0 + dx))) < 128
                               then 1 else 0) = (if dy < 4 then 25 else (0::nat))"
    if "dy < 25" for dy
  proof -
    have "(\<Sum>dx = 0..<25. if meanGray (data strokeImage ! ((0 + dy) * 26 + (0 + dx))) < 128
                               then 1 else 0) = (\<Sum>dx = (0::nat)..<25. if dy < 4 then 1 else (0::nat))"
    proof (intro sum.cong refl)
      fix dx :: nat
      assume "dx \<in> {0..<25}"
      then have "dx < 25" by simp
      from stroke_dark_at[OF this that]
      show "(if meanGray (data strokeImage ! ((0 + dy) * 26 + (0 + dx))) < 128 then 1 else 0)
              = (if dy < 4 then 1 else (0::nat))"
        by (simp only:)
    qed
    then show ?thesis by simp
  qed
  have "length (filter (\<lambda>p. meanGray p < 128) (blockPixels (data strokeImage) 26 0 0 25))
      = (\<Sum>dy = 0..<25. \<Sum>dx = 0..<25.
           if meanGray (data strokeImage ! ((0 + dy) * 26 + (0 + dx))) < 128 then 1 else 0)"
    by (rule blockPixels_count[OF a b])
  also have "\<dots> = (\<Sum>dy = (0::nat)..<25. if dy < 4 then 25 else (0::nat))"
  proof (intro sum.cong refl)
    fix dy :: nat
    assume "dy \<in> {0..<25}"
    then have "dy < 25" by simp
    then show "(\<Sum>dx = 0..<25. if meanGray (data strokeImage ! ((0 + dy) * 26 + (0 + dx))) < 128
                               then 1 else 0) = (if dy < 4 then 25 else (0::nat))"
      by (rule row)
  qed
  also have "\<dots> = 100" using sum_below[of 4 25 25] by simp
  finally show ?thesis .
qed

lemma stroke_darkRatio: "darkRatio strokeImage 0 0 25 = 4 / 25"
proof -
  have a: "0 + 25 \<le> (26::nat)" by simp
  have b: "(0 + 25) * 26 \<le> length (data strokeImage)" by (simp add: strokeData_length)
  have l: "length (blockPixels (data strokeImage) 26 0 0 25) = 625"
    using blockPixels_length[OF a b] by simp
  show ?thesis
    unfolding darkRatio_def Let_def strokeImage_width stroke_dark_count l by simp
qed

lemma blockStarts_26_25: "blockStarts 0 26 25 = [0]"
  by (simp add: blockStarts.simps)

text \<open>
  Claim C1 on this image. The only block of the stroke scanner has dark ratio
  \<open>4/25 = 0.16\<close>, inside \<open>(0.10, 0.40)\<close>, and \<open>calculateStrokeScore\<close> returns that ratio;
  the claim has the scanner emit the block with confidence \<open>0.16\<close>. The scanner emits
  nothing: \<open>detectTextByStroke\<close> keeps a block only when its score exceeds \<open>0.4\<close>, which
  no score does.
\<close>

theorem stroke_scanner_emits_nothing:
  "wellFormed strokeImage \<and>
   blockStarts 0 (width strokeImage) 25 = [0] \<and> blockStarts 0 (height strokeImage) 25 = [0] \<and>
   darkRatio strokeImage 0 0 25 = 4 / 25 \<and>
   calculateStrokeScore strokeImage 0 0 25 = 4 / 25 \<and>
   detectTextByStroke strokeImage = []"
proof -
  have "calculateStrokeScore strokeImage 0 0 25 = 4 / 25"
    unfolding calculateStrokeScore_def Let_def stroke_darkRatio by simp
  then show ?thesis
    using strokeImage_wellFormed stroke_darkRatio detectTextByStroke_empty[of strokeImage]
    by (simp add: strokeImage_width strokeImage_height blockStarts_26_25)
qed

section \<open>Automatic option selection\<close>

lemma column_length: "length (data columnImage) = 3"
  by (simp add: columnImage_def)

lemma column_brightness:
  "brightnessAt columnImage 0 = 0" "brightnessAt columnImage 1 = 255"
  "brightnessAt columnImage 2 = 0"
  by (simp_all add: brightnessAt_def columnImage_def)

lemma column_neighbours: "filter (hasVerticalNeighbours columnImage) [0, 1, 2] = [1]"
  by (simp add: hasVerticalNeighbours_def columnImage_def)

lemma column_diff: "verticalDiff columnImage 1 = 510"
  by (simp add: verticalDiff_def brightnessAt_def columnImage_def)

lemma column_averageBrightness: "averageBrightness columnImage = 85"
  unfolding averageBrightness_def column_length upt_3 using column_brightness by simp

lemma column_averageLocalContrast: "averageLocalContrast columnImage = 170"
  unfolding averageLocalContrast_def column_length upt_3 column_neighbours
  using column_diff by simp

lemma column_edgePixelRatio: "edgePixelRatio columnImage = 1 / 3"
proof -
  have "filter (\<lambda>p. hasVerticalNeighbours columnImage p \<and> verticalDiff columnImage p > 30) [0, 1, 2]
      = filter (\<lambda>p. verticalDiff columnImage p > 30) (filter (hasVerticalNeighbours columnImage) [0, 1, 2])"
    by (simp only: filter_filter conj_commute)
  also have "\<dots> = [1]" unfolding column_neighbours using column_diff by simp
  finally show ?thesis unfolding edgePixelRatio_def column_length upt_3 by simp
qed

lemma column_statedFlags:
  "statedFlags columnImage =
     \<lparr> enhanceContrast = False, removeNoise = True, binarize_opt = True, deskew = False,
       scaleUp = True, sharpen = False, removeBackground = False \<rparr>"
  unfolding statedFlags_def column_averageBrightness column_averageLocalContrast
    column_edgePixelRatio
  by (simp add: columnImage_def)

lemma column_analyzeStats: "analyzeStats columnImage = (255, 0, 0)"
  unfolding analyzeStats_def column_length upt_3
  by (simp add: analyzeStep_def columnImage_def)

lemma column_analyzeImage:
  "analyzeImage columnImage =
     \<lparr> enhanceContrast = True, removeNoise = False, binarize_opt = True, deskew = False,
       scaleUp = True, sharpen = True, removeBackground = False \<rparr>"
  unfolding analyzeImage_def column_analyzeStats column_length
  by (simp add: jsLess_def columnImage_def)

text \<open>
  Claim C7 against the code. On the image of one column and three rows, black, white,
  black, the white pixel has a pixel above and one below, and its local contrast is
  \<open>255 + 255 = 510\<close>: over the whole image the average local contrast is \<open>510 / 3 = 170\<close> and
  the edge-pixel ratio \<open>1 / 3\<close>, so the flags of the claim are \<open>enhanceContrast = false\<close>,
  \<open>removeNoise = true\<close>, \<open>sharpen = false\<close>. The guard of \<open>analyzeImage\<close>,
  \<open>i > width * 4 && i < data.length - width * 4\<close>, is false at the offset \<open>i = 4 = width * 4\<close>
  of that pixel (the first pixel of the second row of any image), so the loop leaves it
  out: \<open>contrastSum\<close> and \<open>edgePixels\<close> stay 0 and \<open>analyzeImage\<close> returns
  \<open>enhanceContrast = true\<close>, \<open>removeNoise = false\<close>, \<open>sharpen = true\<close>. Every number of this
  run (0, 255, 85, 170, 510) is an integer, computed without rounding.
\<close>

theorem analyzeImage_skips_row_start:
  "wellFormed columnImage \<and>
   analyzeStats columnImage = (255, 0, 0) \<and>
   analyzeImage columnImage =
     \<lparr> enhanceContrast = True, removeNoise = False, binarize_opt = True, deskew = False,
       scaleUp = True, sharpen = True, removeBackground = False \<rparr> \<and>
   averageBrightness columnImage = 85 \<and>
   averageLocalContrast columnImage = 170 \<and>
   edgePixelRatio columnImage = 1 / 3 \<and>
   statedFlags columnImage =
     \<lparr> enhanceContrast = False, removeNoise = True, binarize_opt = True, deskew = False,
       scaleUp = True, sharpen = False, removeBackground = False \<rparr> \<and>
   analyzeImage columnImage \<noteq> statedFlags columnImage"
proof -
  have wf: "wellFormed columnImage" by (simp add: wellFormed_def columnImage_def)
  have ne: "analyzeImage columnImage \<noteq> statedFlags columnImage"
    unfolding column_analyzeImage column_statedFlags by simp
  show ?thesis
    using wf ne column_analyzeStats column_analyzeImage column_averageBrightness
      column_averageLocalContrast column_edgePixelRatio column_statedFlags
    by simp
qed

end
